theory Spec2Isabelle
  imports Complex_Main "HOL-Library.Log_Nat"
begin

section \<open>JavaScript numbers\<close>

text \<open>
  Every number of \<^verbatim>\<open>getData.mjs\<close> is a JavaScript number, that is an IEEE 754 binary64
  value.  A finite value is kept as the rational it denotes (\<open>Fin 0\<close> is \<open>+0\<close>), and
  the four values without a rational are constructors of their own.  Arithmetic rounds
  the exact result to the nearest double, ties to even, as the platform does.
\<close>

datatype jsnum = NaN | NInf | NZero | Fin rat | PInf

definition round_half_even :: "rat \<Rightarrow> int" where
  "round_half_even x =
     (let f = \<lfloor>x\<rfloor>; d = x - of_int f
      in if d < 1 / 2 then f
         else if 1 / 2 < d then f + 1
         else if even f then f else f + 1)"

text \<open>\<open>ilog2 x\<close> is the binary exponent \<open>\<lfloor>log\<^sub>2 x\<rfloor>\<close> of a positive rational.\<close>

definition ilog2 :: "rat \<Rightarrow> int" where
  "ilog2 x =
     (case quotient_of x of (p, q) \<Rightarrow>
        let d = bitlen p - bitlen q in if 2 powi d \<le> x then d else d - 1)"

text \<open>
  The spacing of the doubles around \<open>x\<close>: 52 fraction bits below the exponent of \<open>x\<close>,
  where the exponent is at least \<open>-1022\<close> (below it the numbers are subnormal, and
  their spacing is \<open>2\<^sup>-\<^sup>1\<^sup>0\<^sup>7\<^sup>4\<close>).
\<close>

definition expo :: "rat \<Rightarrow> int" where
  "expo x = max (ilog2 \<bar>x\<bar>) (- 1022)"

definition quantum :: "rat \<Rightarrow> rat" where
  "quantum x = 2 powi (expo x - 52)"

definition is_double :: "rat \<Rightarrow> bool" where
  "is_double x \<longleftrightarrow>
     x = 0 \<or> (x / quantum x = of_int \<lfloor>x / quantum x\<rfloor> \<and> \<bar>x\<bar> < 2 ^ 1024)"

text \<open>Rounding of an exact result to a double (round to nearest, ties to even).\<close>

definition fl :: "rat \<Rightarrow> jsnum" where
  "fl x =
     (if x = 0 then Fin 0
      else let r = of_int (round_half_even (x / quantum x)) * quantum x
           in if 2 ^ 1024 \<le> r then PInf
              else if r \<le> - (2 ^ 1024) then NInf
              else if r = 0 then (if x < 0 then NZero else Fin 0)
              else Fin r)"

definition js_neg :: "jsnum \<Rightarrow> jsnum" where
  "js_neg x =
     (case x of NaN \<Rightarrow> NaN | NInf \<Rightarrow> PInf | PInf \<Rightarrow> NInf | NZero \<Rightarrow> Fin 0
      | Fin a \<Rightarrow> if a = 0 then NZero else Fin (- a))"

text \<open>
  The operator \<^verbatim>\<open>+\<close> on two numbers.  The sum of two finite numbers is \<open>-0\<close> only when
  both are; every other finite sum is the rounded exact sum.
\<close>

fun js_add :: "jsnum \<Rightarrow> jsnum \<Rightarrow> jsnum" where
  "js_add NaN y = NaN"
| "js_add x NaN = NaN"
| "js_add PInf NInf = NaN"
| "js_add NInf PInf = NaN"
| "js_add PInf y = PInf"
| "js_add x PInf = PInf"
| "js_add NInf y = NInf"
| "js_add x NInf = NInf"
| "js_add NZero NZero = NZero"
| "js_add NZero (Fin b) = fl b"
| "js_add (Fin a) NZero = fl a"
| "js_add (Fin a) (Fin b) = fl (a + b)"

text \<open>The operator \<^verbatim>\<open>-\<close> on two numbers.\<close>

definition js_sub :: "jsnum \<Rightarrow> jsnum \<Rightarrow> jsnum" where
  "js_sub x y = js_add x (js_neg y)"

definition is_negative :: "jsnum \<Rightarrow> bool" where
  "is_negative x = (case x of NInf \<Rightarrow> True | NZero \<Rightarrow> True | Fin a \<Rightarrow> a < 0 | _ \<Rightarrow> False)"

definition is_zero :: "jsnum \<Rightarrow> bool" where
  "is_zero x = (case x of NZero \<Rightarrow> True | Fin a \<Rightarrow> a = 0 | _ \<Rightarrow> False)"

definition is_inf :: "jsnum \<Rightarrow> bool" where
  "is_inf x = (case x of NInf \<Rightarrow> True | PInf \<Rightarrow> True | _ \<Rightarrow> False)"

definition signed_inf :: "bool \<Rightarrow> jsnum" where
  "signed_inf neg = (if neg then NInf else PInf)"

definition signed_zero :: "bool \<Rightarrow> jsnum" where
  "signed_zero neg = (if neg then NZero else Fin 0)"

text \<open>The operator \<^verbatim>\<open>/\<close> on two numbers.\<close>

definition js_div :: "jsnum \<Rightarrow> jsnum \<Rightarrow> jsnum" where
  "js_div x y =
     (let neg = (is_negative x \<noteq> is_negative y)
      in if x = NaN \<or> y = NaN then NaN
         else if is_inf x then (if is_inf y then NaN else signed_inf neg)
         else if is_inf y then signed_zero neg
         else if is_zero y then (if is_zero x then NaN else signed_inf neg)
         else if is_zero x then signed_zero neg
         else (case (x, y) of (Fin a, Fin b) \<Rightarrow> fl (a / b) | _ \<Rightarrow> NaN))"

text \<open>
  \<^verbatim>\<open>Math.round\<close>: the integer nearest to the argument, a tie going to the larger one;
  the result keeps the sign of an argument in \<open>[-0.5, 0)\<close>, so it is \<open>-0\<close> there.
\<close>

definition Math_round :: "jsnum \<Rightarrow> jsnum" where
  "Math_round x =
     (case x of
        Fin a \<Rightarrow> (let k = \<lfloor>a + 1 / 2\<rfloor> in if k = 0 \<and> a < 0 then NZero else Fin (of_int k))
      | _ \<Rightarrow> x)"

text \<open>The length of an array as a number.\<close>

definition js_length :: "'a list \<Rightarrow> jsnum" where
  "js_length xs = Fin (of_nat (length xs))"

text \<open>The test \<^verbatim>\<open>v > 0\<close>, and the relations \<^verbatim>\<open><=\<close> and \<^verbatim>\<open>==\<close> on numbers.\<close>

definition js_gt0 :: "jsnum \<Rightarrow> bool" where
  "js_gt0 v = (case v of PInf \<Rightarrow> True | Fin a \<Rightarrow> 0 < a | _ \<Rightarrow> False)"

fun js_le :: "jsnum \<Rightarrow> jsnum \<Rightarrow> bool" where
  "js_le NaN y = False"
| "js_le x NaN = False"
| "js_le NInf y = True"
| "js_le x PInf = True"
| "js_le x NInf = False"
| "js_le PInf y = False"
| "js_le NZero NZero = True"
| "js_le NZero (Fin b) = (0 \<le> b)"
| "js_le (Fin a) NZero = (a \<le> 0)"
| "js_le (Fin a) (Fin b) = (a \<le> b)"

definition js_eq :: "jsnum \<Rightarrow> jsnum \<Rightarrow> bool" where
  "js_eq x y \<longleftrightarrow> js_le x y \<and> js_le y x"

text \<open>
  \<^verbatim>\<open>Array.prototype.sort\<close> with a comparison function.  ECMAScript requires the sort to
  be stable and treats a comparison result that is \<open>NaN\<close> as \<open>0\<close>; for a consistent
  comparison function the result is then determined, and a stable insertion sort
  computes it.  An element moves behind another one only when the comparison of the
  two is positive.
\<close>

fun sort_insert :: "('a \<Rightarrow> 'a \<Rightarrow> jsnum) \<Rightarrow> 'a \<Rightarrow> 'a list \<Rightarrow> 'a list" where
  "sort_insert cmp x [] = [x]"
| "sort_insert cmp x (y # ys) =
     (if js_gt0 (cmp x y) then y # sort_insert cmp x ys else x # y # ys)"

definition js_sort :: "('a \<Rightarrow> 'a \<Rightarrow> jsnum) \<Rightarrow> 'a list \<Rightarrow> 'a list" where
  "js_sort cmp xs = foldr (sort_insert cmp) xs []"

section \<open>Values and the schema library\<close>

text \<open>
  The values that \<^verbatim>\<open>JSON.parse\<close> hands to the schemas, and \<open>Undefined\<close> for what reading
  a missing property gives.  An object is the list of its properties.
\<close>

datatype jsval =
    Undefined
  | Null
  | Bool bool
  | Num jsnum
  | Str string
  | Arr "jsval list"
  | Obj "(string \<times> jsval) list"

text \<open>
  A schema either returns the parsed value or throws a \<^verbatim>\<open>ZodError\<close>; the list of issues
  the exception carries is not modelled.
\<close>

datatype error = ZodError

definition bind :: "error + 'a \<Rightarrow> ('a \<Rightarrow> error + 'b) \<Rightarrow> error + 'b" where
  "bind m f = (case m of Inl e \<Rightarrow> Inl e | Inr x \<Rightarrow> f x)"

text \<open>\<^verbatim>\<open>z.string()\<close>, \<^verbatim>\<open>z.string().optional()\<close> and \<^verbatim>\<open>z.number()\<close>, which refuses \<open>NaN\<close>.\<close>

definition z_string :: "jsval \<Rightarrow> error + string" where
  "z_string v = (case v of Str s \<Rightarrow> Inr s | _ \<Rightarrow> Inl ZodError)"

definition z_string_optional :: "jsval \<Rightarrow> error + string option" where
  "z_string_optional v =
     (case v of Undefined \<Rightarrow> Inr None | Str s \<Rightarrow> Inr (Some s) | _ \<Rightarrow> Inl ZodError)"

definition z_number :: "jsval \<Rightarrow> error + jsnum" where
  "z_number v =
     (case v of Num x \<Rightarrow> if x = NaN then Inl ZodError else Inr x | _ \<Rightarrow> Inl ZodError)"

text \<open>\<^verbatim>\<open>z.array(p)\<close>: every element is parsed, in order.\<close>

fun parse_all :: "('v \<Rightarrow> error + 'a) \<Rightarrow> 'v list \<Rightarrow> error + 'a list" where
  "parse_all p [] = Inr []"
| "parse_all p (x # xs) = bind (p x) (\<lambda>y. bind (parse_all p xs) (\<lambda>ys. Inr (y # ys)))"

definition z_array :: "(jsval \<Rightarrow> error + 'a) \<Rightarrow> jsval \<Rightarrow> error + 'a list" where
  "z_array p v = (case v of Arr xs \<Rightarrow> parse_all p xs | _ \<Rightarrow> Inl ZodError)"

text \<open>
  One key of a \<^verbatim>\<open>z.object\<close>: the value must be an object, and the schema of the key
  parses the property (\<open>Undefined\<close> when the object has none).  Properties that no key
  of the schema names are dropped from the result.
\<close>

definition property :: "(string \<times> jsval) list \<Rightarrow> string \<Rightarrow> jsval" where
  "property fs k = (case map_of fs k of None \<Rightarrow> Undefined | Some x \<Rightarrow> x)"

definition field :: "jsval \<Rightarrow> string \<Rightarrow> (jsval \<Rightarrow> error + 'a) \<Rightarrow> error + 'a" where
  "field v k p = (case v of Obj fs \<Rightarrow> p (property fs k) | _ \<Rightarrow> Inl ZodError)"

text \<open>\<^verbatim>\<open>z.preprocess(f, schema)\<close>: an exception of \<open>f\<close> leaves the whole parse.\<close>

definition z_preprocess ::
  "(jsval \<Rightarrow> error + jsval) \<Rightarrow> (jsval \<Rightarrow> error + 'a) \<Rightarrow> jsval \<Rightarrow> error + 'a" where
  "z_preprocess f schema v = bind (f v) schema"

text \<open>The object spread \<^verbatim>\<open>{...a, ...b}\<close>.\<close>

fun set_property :: "string \<Rightarrow> jsval \<Rightarrow> (string \<times> jsval) list \<Rightarrow> (string \<times> jsval) list" where
  "set_property k v [] = [(k, v)]"
| "set_property k v (p # ps) = (if fst p = k then (k, v) # ps else p # set_property k v ps)"

definition spread :: "(string \<times> jsval) list \<Rightarrow> (string \<times> jsval) list \<Rightarrow> (string \<times> jsval) list" where
  "spread a b = foldl (\<lambda>ps (k, v). set_property k v ps) a b"

section \<open>The schemas of getData.mjs\<close>

record Estimates =
  lowerEstimate :: jsnum
  higherEstimate :: jsnum
  complexity :: jsnum
  confidence :: jsnum

record Gantt =
  position :: jsnum
  start :: string
  label :: "string option"
  color :: "string option"

record MinorTask = Estimates +
  minor_name :: string
  comment :: "string option"

record MajorTaskIn =
  majorIn_name :: string
  majorIn_tasks :: "MinorTask list"
  majorIn_gantt :: Gantt

record MajorTask = Estimates +
  major_name :: string
  major_tasks :: "MinorTask list"
  major_gantt :: Gantt

record TaskCategoryIn =
  categoryIn_name :: string
  categoryIn_tasks :: "MajorTask list"

record TaskCategory = Estimates +
  category_name :: string
  category_tasks :: "MajorTask list"

record Input =
  input_estimates :: "TaskCategory list"

record EstimateList = Estimates +
  list_estimates :: "TaskCategory list"

subsection \<open>Typed values as the objects they are\<close>

definition optional_property :: "string \<Rightarrow> string option \<Rightarrow> (string \<times> jsval) list" where
  "optional_property k v = (case v of None \<Rightarrow> [] | Some s \<Rightarrow> [(k, Str s)])"

definition obj_of_Estimates :: "'a Estimates_scheme \<Rightarrow> (string \<times> jsval) list" where
  "obj_of_Estimates e =
     [(''lowerEstimate'', Num (lowerEstimate e)),
      (''higherEstimate'', Num (higherEstimate e)),
      (''complexity'', Num (complexity e)),
      (''confidence'', Num (confidence e))]"

definition val_of_Gantt :: "Gantt \<Rightarrow> jsval" where
  "val_of_Gantt g =
     Obj ([(''position'', Num (position g)), (''start'', Str (start g))]
          @ optional_property ''label'' (label g) @ optional_property ''color'' (color g))"

definition val_of_MinorTask :: "MinorTask \<Rightarrow> jsval" where
  "val_of_MinorTask t =
     Obj ([(''name'', Str (minor_name t))] @ obj_of_Estimates t
          @ optional_property ''comment'' (comment t))"

definition obj_of_MajorTaskIn :: "MajorTaskIn \<Rightarrow> (string \<times> jsval) list" where
  "obj_of_MajorTaskIn i =
     [(''name'', Str (majorIn_name i)),
      (''tasks'', Arr (map val_of_MinorTask (majorIn_tasks i))),
      (''gantt'', val_of_Gantt (majorIn_gantt i))]"

definition val_of_MajorTask :: "MajorTask \<Rightarrow> jsval" where
  "val_of_MajorTask t =
     Obj ([(''name'', Str (major_name t)),
           (''tasks'', Arr (map val_of_MinorTask (major_tasks t))),
           (''gantt'', val_of_Gantt (major_gantt t))] @ obj_of_Estimates t)"

definition obj_of_TaskCategoryIn :: "TaskCategoryIn \<Rightarrow> (string \<times> jsval) list" where
  "obj_of_TaskCategoryIn i =
     [(''name'', Str (categoryIn_name i)),
      (''tasks'', Arr (map val_of_MajorTask (categoryIn_tasks i)))]"

definition val_of_TaskCategory :: "TaskCategory \<Rightarrow> jsval" where
  "val_of_TaskCategory c =
     Obj ([(''name'', Str (category_name c)),
           (''tasks'', Arr (map val_of_MajorTask (category_tasks c)))] @ obj_of_Estimates c)"

definition obj_of_Input :: "Input \<Rightarrow> (string \<times> jsval) list" where
  "obj_of_Input i = [(''estimates'', Arr (map val_of_TaskCategory (input_estimates i)))]"

definition val_of_EstimateList :: "EstimateList \<Rightarrow> jsval" where
  "val_of_EstimateList l =
     Obj ([(''estimates'', Arr (map val_of_TaskCategory (list_estimates l)))]
          @ obj_of_Estimates l)"

subsection \<open>The leaf schemas\<close>

definition estimates :: "jsval \<Rightarrow> error + Estimates" where
  "estimates v =
     bind (field v ''lowerEstimate'' z_number) (\<lambda>lo.
     bind (field v ''higherEstimate'' z_number) (\<lambda>hi.
     bind (field v ''complexity'' z_number) (\<lambda>cx.
     bind (field v ''confidence'' z_number) (\<lambda>cf.
     Inr \<lparr>lowerEstimate = lo, higherEstimate = hi, complexity = cx, confidence = cf\<rparr>))))"

definition gantt :: "jsval \<Rightarrow> error + Gantt" where
  "gantt v =
     bind (field v ''position'' z_number) (\<lambda>p.
     bind (field v ''start'' z_string) (\<lambda>s.
     bind (field v ''label'' z_string_optional) (\<lambda>l.
     bind (field v ''color'' z_string_optional) (\<lambda>c.
     Inr \<lparr>position = p, start = s, label = l, color = c\<rparr>))))"

text \<open>
  \<^verbatim>\<open>minorTask\<close> is the intersection of three object schemas: each parses the same value,
  and the results are merged.
\<close>

definition minorTask :: "jsval \<Rightarrow> error + MinorTask" where
  "minorTask v =
     bind (field v ''name'' z_string) (\<lambda>n.
     bind (estimates v) (\<lambda>e.
     bind (field v ''comment'' z_string_optional) (\<lambda>c.
     Inr \<lparr>lowerEstimate = lowerEstimate e, higherEstimate = higherEstimate e,
          complexity = complexity e, confidence = confidence e,
          minor_name = n, comment = c\<rparr>)))"

definition majorTaskIn :: "jsval \<Rightarrow> error + MajorTaskIn" where
  "majorTaskIn v =
     bind (field v ''name'' z_string) (\<lambda>n.
     bind (field v ''tasks'' (z_array minorTask)) (\<lambda>ts.
     bind (field v ''gantt'' gantt) (\<lambda>g.
     Inr \<lparr>majorIn_name = n, majorIn_tasks = ts, majorIn_gantt = g\<rparr>)))"

subsection \<open>Aggregation\<close>

text \<open>
  The callback of \<^verbatim>\<open>reduce\<close> and the two calls of \<^verbatim>\<open>Math.round\<close> after it.  The source
  has this code three times, for the tasks of a major task, the tasks of a category and
  the categories of the plan; the three copies differ in the name of the array only.
\<close>

definition zero_totals :: Estimates where
  "zero_totals =
     \<lparr>lowerEstimate = Fin 0, higherEstimate = Fin 0, complexity = Fin 0, confidence = Fin 0\<rparr>"

definition add_task :: "jsnum \<Rightarrow> Estimates \<Rightarrow> 'a Estimates_scheme \<Rightarrow> Estimates" where
  "add_task len acc task =
     \<lparr>lowerEstimate = js_add (lowerEstimate acc) (lowerEstimate task),
      higherEstimate = js_add (higherEstimate acc) (higherEstimate task),
      complexity = js_add (complexity acc) (js_div (complexity task) len),
      confidence = js_add (confidence acc) (js_div (confidence task) len)\<rparr>"

definition reduce_totals :: "'a Estimates_scheme list \<Rightarrow> Estimates" where
  "reduce_totals tasks = foldl (add_task (js_length tasks)) zero_totals tasks"

definition totals_of :: "'a Estimates_scheme list \<Rightarrow> Estimates" where
  "totals_of tasks =
     (let totals = reduce_totals tasks
      in totals\<lparr>complexity := Math_round (complexity totals),
                confidence := Math_round (confidence totals)\<rparr>)"

subsection \<open>Major tasks\<close>

definition majorTask_pre :: "jsval \<Rightarrow> error + jsval" where
  "majorTask_pre val =
     bind (majorTaskIn val) (\<lambda>input.
       let totals = totals_of (majorIn_tasks input)
       in Inr (Obj (spread (obj_of_MajorTaskIn input) (obj_of_Estimates totals))))"

definition majorTask_out :: "jsval \<Rightarrow> error + MajorTask" where
  "majorTask_out v =
     bind (majorTaskIn v) (\<lambda>i.
     bind (estimates v) (\<lambda>e.
     Inr \<lparr>lowerEstimate = lowerEstimate e, higherEstimate = higherEstimate e,
          complexity = complexity e, confidence = confidence e,
          major_name = majorIn_name i, major_tasks = majorIn_tasks i,
          major_gantt = majorIn_gantt i\<rparr>))"

definition majorTask :: "jsval \<Rightarrow> error + MajorTask" where
  "majorTask = z_preprocess majorTask_pre majorTask_out"

subsection \<open>Categories\<close>

definition taskCategoryIn :: "jsval \<Rightarrow> error + TaskCategoryIn" where
  "taskCategoryIn v =
     bind (field v ''name'' z_string) (\<lambda>n.
     bind (field v ''tasks'' (z_array majorTask)) (\<lambda>ts.
     Inr \<lparr>categoryIn_name = n, categoryIn_tasks = ts\<rparr>))"

definition by_position :: "MajorTask \<Rightarrow> MajorTask \<Rightarrow> jsnum" where
  "by_position a b = js_sub (position (major_gantt a)) (position (major_gantt b))"

definition taskCategory_pre :: "jsval \<Rightarrow> error + jsval" where
  "taskCategory_pre val =
     bind (taskCategoryIn val) (\<lambda>input.
       let totals = totals_of (categoryIn_tasks input);
           input = input\<lparr>categoryIn_tasks := js_sort by_position (categoryIn_tasks input)\<rparr>
       in Inr (Obj (spread (obj_of_TaskCategoryIn input) (obj_of_Estimates totals))))"

definition taskCategory_out :: "jsval \<Rightarrow> error + TaskCategory" where
  "taskCategory_out v =
     bind (taskCategoryIn v) (\<lambda>i.
     bind (estimates v) (\<lambda>e.
     Inr \<lparr>lowerEstimate = lowerEstimate e, higherEstimate = higherEstimate e,
          complexity = complexity e, confidence = confidence e,
          category_name = categoryIn_name i, category_tasks = categoryIn_tasks i\<rparr>))"

definition taskCategory :: "jsval \<Rightarrow> error + TaskCategory" where
  "taskCategory = z_preprocess taskCategory_pre taskCategory_out"

subsection \<open>The plan\<close>

definition estimateSchema :: "jsval \<Rightarrow> error + Input" where
  "estimateSchema v =
     bind (field v ''estimates'' (z_array taskCategory)) (\<lambda>cs.
     Inr \<lparr>input_estimates = cs\<rparr>)"

definition estimateList_pre :: "jsval \<Rightarrow> error + jsval" where
  "estimateList_pre val =
     bind (estimateSchema val) (\<lambda>input.
       let totals = totals_of (input_estimates input)
       in Inr (Obj (spread (obj_of_Input input) (obj_of_Estimates totals))))"

definition estimateList_out :: "jsval \<Rightarrow> error + EstimateList" where
  "estimateList_out v =
     bind (estimateSchema v) (\<lambda>i.
     bind (estimates v) (\<lambda>e.
     Inr \<lparr>lowerEstimate = lowerEstimate e, higherEstimate = higherEstimate e,
          complexity = complexity e, confidence = confidence e,
          list_estimates = input_estimates i\<rparr>))"

definition estimateList :: "jsval \<Rightarrow> error + EstimateList" where
  "estimateList = z_preprocess estimateList_pre estimateList_out"

section \<open>Notions used in the statements and proofs\<close>

definition rnd :: "rat \<Rightarrow> rat" where
  "rnd x = of_int (round_half_even (x / quantum x)) * quantum x"

definition classify :: "rat \<Rightarrow> rat \<Rightarrow> jsnum" where
  "classify r x =
     (if 2 ^ 1024 \<le> r then PInf
      else if r \<le> - (2 ^ 1024) then NInf
      else if r = 0 then (if x < 0 then NZero else Fin 0)
      else Fin r)"

definition ok_estimates :: "'a Estimates_scheme \<Rightarrow> bool" where
  "ok_estimates e \<longleftrightarrow>
     lowerEstimate e \<noteq> NaN \<and> higherEstimate e \<noteq> NaN \<and> complexity e \<noteq> NaN \<and> confidence e \<noteq> NaN"

definition ok_tasks :: "MinorTask list \<Rightarrow> Gantt \<Rightarrow> bool" where
  "ok_tasks ts g \<longleftrightarrow> list_all ok_estimates ts \<and> position g \<noteq> NaN"

definition major_of :: "MajorTaskIn \<Rightarrow> Estimates \<Rightarrow> MajorTask" where
  "major_of i e =
     \<lparr>lowerEstimate = lowerEstimate e, higherEstimate = higherEstimate e,
      complexity = complexity e, confidence = confidence e,
      major_name = majorIn_name i, major_tasks = majorIn_tasks i,
      major_gantt = majorIn_gantt i\<rparr>"

definition aggregated_major :: "MajorTask \<Rightarrow> bool" where
  "aggregated_major m \<longleftrightarrow>
     ok_estimates m \<and> ok_tasks (major_tasks m) (major_gantt m)
     \<and> Estimates.truncate m = totals_of (major_tasks m)"

definition category_of :: "string \<Rightarrow> MajorTask list \<Rightarrow> Estimates \<Rightarrow> TaskCategory" where
  "category_of n ts e =
     \<lparr>lowerEstimate = lowerEstimate e, higherEstimate = higherEstimate e,
      complexity = complexity e, confidence = confidence e,
      category_name = n, category_tasks = ts\<rparr>"

definition list_of :: "TaskCategory list \<Rightarrow> Estimates \<Rightarrow> EstimateList" where
  "list_of cs e =
     \<lparr>lowerEstimate = lowerEstimate e, higherEstimate = higherEstimate e,
      complexity = complexity e, confidence = confidence e,
      list_estimates = cs\<rparr>"

text \<open>What parsing an already aggregated category gives.\<close>

definition reaggregate :: "TaskCategory \<Rightarrow> error + TaskCategory" where
  "reaggregate c =
     (if ok_estimates (totals_of (category_tasks c))
      then Inr (category_of (category_name c) (js_sort by_position (category_tasks c))
                  (totals_of (category_tasks c)))
      else Inl ZodError)"

text \<open>The shapes of section 6 of the specification, as predicates on raw values.\<close>

definition is_string :: "jsval \<Rightarrow> bool" where
  "is_string v = (case v of Str s \<Rightarrow> True | _ \<Rightarrow> False)"

definition is_optional_string :: "jsval \<Rightarrow> bool" where
  "is_optional_string v = (case v of Undefined \<Rightarrow> True | Str s \<Rightarrow> True | _ \<Rightarrow> False)"

definition is_number :: "jsval \<Rightarrow> bool" where
  "is_number v = (case v of Num x \<Rightarrow> x \<noteq> NaN | _ \<Rightarrow> False)"

definition is_array_of :: "(jsval \<Rightarrow> bool) \<Rightarrow> jsval \<Rightarrow> bool" where
  "is_array_of P v = (case v of Arr xs \<Rightarrow> list_all P xs | _ \<Rightarrow> False)"

definition shape_gantt :: "jsval \<Rightarrow> bool" where
  "shape_gantt v =
     (case v of
        Obj fs \<Rightarrow> is_number (property fs ''position'') \<and> is_string (property fs ''start'')
          \<and> is_optional_string (property fs ''label'')
          \<and> is_optional_string (property fs ''color'')
      | _ \<Rightarrow> False)"

definition shape_minor :: "jsval \<Rightarrow> bool" where
  "shape_minor v =
     (case v of
        Obj fs \<Rightarrow> is_string (property fs ''name'')
          \<and> is_number (property fs ''lowerEstimate'') \<and> is_number (property fs ''higherEstimate'')
          \<and> is_number (property fs ''complexity'') \<and> is_number (property fs ''confidence'')
          \<and> is_optional_string (property fs ''comment'')
      | _ \<Rightarrow> False)"

definition shape_major :: "jsval \<Rightarrow> bool" where
  "shape_major v =
     (case v of
        Obj fs \<Rightarrow> is_string (property fs ''name'')
          \<and> is_array_of shape_minor (property fs ''tasks'')
          \<and> shape_gantt (property fs ''gantt'')
      | _ \<Rightarrow> False)"

definition shape_category :: "jsval \<Rightarrow> bool" where
  "shape_category v =
     (case v of
        Obj fs \<Rightarrow> is_string (property fs ''name'')
          \<and> is_array_of shape_major (property fs ''tasks'')
      | _ \<Rightarrow> False)"

definition shape_plan :: "jsval \<Rightarrow> bool" where
  "shape_plan v =
     (case v of Obj fs \<Rightarrow> is_array_of shape_category (property fs ''estimates'') | _ \<Rightarrow> False)"

text \<open>
  Erasing the four estimate properties from every non-leaf node of a raw plan: two raw
  plans have the same erasure exactly when they differ at most in those properties of
  major tasks, categories and the plan itself.
\<close>

definition estimate_keys :: "string list" where
  "estimate_keys = [''lowerEstimate'', ''higherEstimate'', ''complexity'', ''confidence'']"

definition without_estimates :: "(string \<times> jsval) list \<Rightarrow> (string \<times> jsval) list" where
  "without_estimates fs = filter (\<lambda>p. fst p \<notin> set estimate_keys) fs"

definition map_elements :: "(jsval \<Rightarrow> jsval) \<Rightarrow> jsval \<Rightarrow> jsval" where
  "map_elements f v = (case v of Arr xs \<Rightarrow> Arr (map f xs) | _ \<Rightarrow> v)"

definition map_property ::
  "string \<Rightarrow> (jsval \<Rightarrow> jsval) \<Rightarrow> (string \<times> jsval) list \<Rightarrow> (string \<times> jsval) list" where
  "map_property k f fs = map (\<lambda>p. if fst p = k then (k, f (snd p)) else p) fs"

definition erase_major :: "jsval \<Rightarrow> jsval" where
  "erase_major v = (case v of Obj fs \<Rightarrow> Obj (without_estimates fs) | _ \<Rightarrow> v)"

definition erase_category :: "jsval \<Rightarrow> jsval" where
  "erase_category v =
     (case v of
        Obj fs \<Rightarrow> Obj (map_property ''tasks'' (map_elements erase_major) (without_estimates fs))
      | _ \<Rightarrow> v)"

definition erase_plan :: "jsval \<Rightarrow> jsval" where
  "erase_plan v =
     (case v of
        Obj fs \<Rightarrow>
          Obj (map_property ''estimates'' (map_elements erase_category) (without_estimates fs))
      | _ \<Rightarrow> v)"

text \<open>A number as \<^verbatim>\<open>JSON.parse\<close> produces it: a finite one is a double.\<close>

definition is_js_number :: "jsnum \<Rightarrow> bool" where
  "is_js_number x = (case x of Fin a \<Rightarrow> is_double a | _ \<Rightarrow> True)"

definition position_ok :: "MajorTask \<Rightarrow> bool" where
  "position_ok m \<longleftrightarrow>
     position (major_gantt m) \<noteq> NaN \<and> is_js_number (position (major_gantt m))"

definition position_le :: "MajorTask \<Rightarrow> MajorTask \<Rightarrow> bool" where
  "position_le a b = js_le (position (major_gantt a)) (position (major_gantt b))"

text \<open>The sum and the rounded mean that the callback of \<^verbatim>\<open>reduce\<close> accumulates.\<close>

definition sum_of :: "jsnum list \<Rightarrow> jsnum" where
  "sum_of xs = foldl js_add (Fin 0) xs"

definition mean_of :: "jsnum list \<Rightarrow> jsnum" where
  "mean_of xs = Math_round (foldl (\<lambda>acc x. js_add acc (js_div x (js_length xs))) (Fin 0) xs)"

definition range_ok :: "'a Estimates_scheme \<Rightarrow> bool" where
  "range_ok e \<longleftrightarrow> js_le (lowerEstimate e) (higherEstimate e)"

text \<open>
  A category as the callback of \<open>taskCategory\<close> first makes it: its totals are those of its
  major tasks in the order of the input, and its major tasks are sorted.
\<close>

definition first_pass :: "TaskCategory \<Rightarrow> bool" where
  "first_pass c \<longleftrightarrow>
     (\<exists>n ts. list_all aggregated_major ts \<and> ok_estimates (totals_of ts)
        \<and> c = category_of n (js_sort by_position ts) (totals_of ts))"

definition positions_ok :: "EstimateList \<Rightarrow> bool" where
  "positions_ok l \<longleftrightarrow>
     list_all (\<lambda>c. list_all (\<lambda>m. is_js_number (position (major_gantt m))) (category_tasks c))
       (list_estimates l)"

text \<open>A category that parsing gives back unchanged.\<close>

definition settled :: "TaskCategory \<Rightarrow> bool" where
  "settled c \<longleftrightarrow> reaggregate c = Inr c \<and> list_all aggregated_major (category_tasks c)"

text \<open>
  The rational a finite number denotes; a number that is an integer; a list of integers
  whose absolute values sum to at most \<open>2\<^sup>5\<^sup>3\<close>, so that every partial sum is a double.
\<close>

definition num_val :: "jsnum \<Rightarrow> rat" where
  "num_val x = (case x of Fin a \<Rightarrow> a | _ \<Rightarrow> 0)"

definition is_integer :: "jsnum \<Rightarrow> bool" where
  "is_integer x = (case x of Fin a \<Rightarrow> a = of_int \<lfloor>a\<rfloor> | NZero \<Rightarrow> True | _ \<Rightarrow> False)"

definition total_abs :: "jsnum list \<Rightarrow> rat" where
  "total_abs xs = sum_list (map (\<lambda>x. \<bar>num_val x\<bar>) xs)"

definition small_integers :: "jsnum list \<Rightarrow> bool" where
  "small_integers xs \<longleftrightarrow> list_all is_integer xs \<and> total_abs xs \<le> 2 ^ 53"

text \<open>A number that is the sum of the numbers of a list, taken in the rationals.\<close>

definition exact_sum :: "jsnum \<Rightarrow> jsnum list \<Rightarrow> bool" where
  "exact_sum s xs \<longleftrightarrow> s = Fin (sum_list (map num_val xs))"

text \<open>The minor tasks of a category and of a plan.\<close>

definition category_minors :: "TaskCategory \<Rightarrow> MinorTask list" where
  "category_minors c = concat (map major_tasks (category_tasks c))"

definition all_minors :: "EstimateList \<Rightarrow> MinorTask list" where
  "all_minors l = concat (map category_minors (list_estimates l))"

text \<open>
  The lengths of arrays that are powers of two (the length of an array is below \<open>2\<^sup>3\<^sup>2\<close>):
  dividing by such a length is exact.
\<close>

definition power_of_two :: "nat \<Rightarrow> bool" where
  "power_of_two n \<longleftrightarrow> n \<in> set (map (\<lambda>k. 2 ^ k) [0..<32])"

text \<open>
  A number that is \<^verbatim>\<open>Math.round\<close> of the arithmetic mean of the numbers of a list, the mean
  taken in the rationals.
\<close>

definition rounded_mean :: "jsnum \<Rightarrow> jsnum list \<Rightarrow> bool" where
  "rounded_mean m xs \<longleftrightarrow>
     m = Math_round (Fin (sum_list (map num_val xs) / of_nat (length xs)))"

text \<open>A plan in which every non-leaf node has a power of two as its number of children.\<close>

definition power_of_two_counts :: "EstimateList \<Rightarrow> bool" where
  "power_of_two_counts l \<longleftrightarrow>
     power_of_two (length (list_estimates l))
     \<and> list_all (\<lambda>c. power_of_two (length (category_tasks c))
          \<and> list_all (\<lambda>m. power_of_two (length (major_tasks m))) (category_tasks c))
        (list_estimates l)"

section \<open>Inputs of the examples\<close>

definition c9_task :: jsval where
  "c9_task =
     Obj [(''name'', Str ''t''), (''lowerEstimate'', Num (Fin (- 1))),
          (''higherEstimate'', Num (Fin (- 5))), (''complexity'', Num (Fin 3)),
          (''confidence'', Num (Fin 3))]"

definition c9_parsed :: MinorTask where
  "c9_parsed =
     \<lparr>lowerEstimate = Fin (- 1), higherEstimate = Fin (- 5), complexity = Fin 3,
      confidence = Fin 3, minor_name = ''t'', comment = None\<rparr>"

definition c5_major :: jsval where
  "c5_major =
     Obj [(''name'', Str ''m''), (''tasks'', Arr []),
          (''gantt'', Obj [(''position'', Num (Fin 1)), (''start'', Str ''2024-01-01'')])]"

definition c5_majorIn :: MajorTaskIn where
  "c5_majorIn =
     \<lparr>majorIn_name = ''m'', majorIn_tasks = [],
      majorIn_gantt = \<lparr>position = Fin 1, start = ''2024-01-01'', label = None, color = None\<rparr>\<rparr>"

definition c5_category :: jsval where
  "c5_category = Obj [(''name'', Str ''c''), (''tasks'', Arr [])]"

definition c5_plan :: jsval where
  "c5_plan = Obj [(''estimates'', Arr [])]"

definition c3_major :: jsval where
  "c3_major =
     Obj [(''name'', Str ''m''),
          (''tasks'', Arr [
             Obj [(''lowerEstimate'', Num (Fin 1)), (''higherEstimate'', Num (Fin 2)),
                  (''complexity'', Num (Fin 3)), (''confidence'', Num (Fin 3))]]),
          (''gantt'', Obj [(''position'', Num (Fin 1)), (''start'', Str ''2024-01-01'')])]"

definition c3_category :: jsval where
  "c3_category = Obj [(''name'', Str ''c''), (''tasks'', Arr [c3_major])]"

definition c3_plan :: jsval where
  "c3_plan = Obj [(''estimates'', Arr [c3_category])]"

definition raw_minor :: "string \<Rightarrow> jsnum \<Rightarrow> jsnum \<Rightarrow> jsnum \<Rightarrow> jsnum \<Rightarrow> jsval" where
  "raw_minor n lo hi cx cf =
     Obj [(''name'', Str n), (''lowerEstimate'', Num lo), (''higherEstimate'', Num hi),
          (''complexity'', Num cx), (''confidence'', Num cf)]"

definition raw_major :: "string \<Rightarrow> jsnum \<Rightarrow> jsval list \<Rightarrow> jsval" where
  "raw_major n p ts =
     Obj [(''name'', Str n), (''tasks'', Arr ts),
          (''gantt'', Obj [(''position'', Num p), (''start'', Str ''2024-01-01'')])]"

definition raw_category :: "string \<Rightarrow> jsval list \<Rightarrow> jsval" where
  "raw_category n ts = Obj [(''name'', Str n), (''tasks'', Arr ts)]"

definition raw_plan :: "jsval list \<Rightarrow> jsval" where
  "raw_plan cs = Obj [(''estimates'', Arr cs)]"

definition minor :: "string \<Rightarrow> jsnum \<Rightarrow> jsnum \<Rightarrow> jsnum \<Rightarrow> jsnum \<Rightarrow> MinorTask" where
  "minor n lo hi cx cf =
     \<lparr>lowerEstimate = lo, higherEstimate = hi, complexity = cx, confidence = cf,
      minor_name = n, comment = None\<rparr>"

definition majorIn :: "string \<Rightarrow> jsnum \<Rightarrow> MinorTask list \<Rightarrow> MajorTaskIn" where
  "majorIn n p ts =
     \<lparr>majorIn_name = n, majorIn_tasks = ts,
      majorIn_gantt = \<lparr>position = p, start = ''2024-01-01'', label = None, color = None\<rparr>\<rparr>"

definition c7_major :: jsval where
  "c7_major =
     raw_major ''m'' (Fin 1)
       [raw_minor ''b'' (Fin 2) (Fin 4) (Fin 2) (Fin 4),
        raw_minor ''a'' (Fin 1) (Fin 2) (Fin 4) (Fin 2)]"

definition c7_tasks :: "MinorTask list" where
  "c7_tasks =
     [minor ''b'' (Fin 2) (Fin 4) (Fin 2) (Fin 4), minor ''a'' (Fin 1) (Fin 2) (Fin 4) (Fin 2)]"

definition c7_totals :: Estimates where
  "c7_totals = \<lparr>lowerEstimate = Fin 3, higherEstimate = Fin 6, complexity = Fin 3, confidence = Fin 3\<rparr>"

definition c7_category :: jsval where
  "c7_category = raw_category ''c'' [c7_major]"

definition c7_plan :: jsval where
  "c7_plan = raw_plan [raw_category ''z'' [], raw_category ''y'' []]"

definition with_estimates :: "jsval \<Rightarrow> jsval" where
  "with_estimates v =
     (case v of
        Obj fs \<Rightarrow>
          Obj (fs @ [(''lowerEstimate'', Num (Fin 99)), (''higherEstimate'', Str ''x''),
                     (''complexity'', Null), (''confidence'', Num NaN)])
      | _ \<Rightarrow> v)"

definition c8_plain :: jsval where
  "c8_plain = raw_plan [c7_category]"

definition c8_decorated :: jsval where
  "c8_decorated =
     with_estimates (raw_plan [with_estimates (raw_category ''c'' [with_estimates c7_major])])"

definition c4_category :: jsval where
  "c4_category =
     raw_category ''c''
       [raw_major ''third'' (Fin 3) [raw_minor ''t'' (Fin 1) (Fin 2) (Fin 3) (Fin 3)],
        raw_major ''first'' (Fin 1) [raw_minor ''t'' (Fin 1) (Fin 2) (Fin 3) (Fin 3)],
        raw_major ''second'' (Fin 2) [raw_minor ''t'' (Fin 1) (Fin 2) (Fin 3) (Fin 3)]]"

definition c4_totals :: Estimates where
  "c4_totals = \<lparr>lowerEstimate = Fin 1, higherEstimate = Fin 2, complexity = Fin 3, confidence = Fin 3\<rparr>"

definition c4_major :: "string \<Rightarrow> rat \<Rightarrow> MajorTask" where
  "c4_major n p =
     major_of (majorIn n (Fin p) [minor ''t'' (Fin 1) (Fin 2) (Fin 3) (Fin 3)]) c4_totals"

definition c4_input :: TaskCategoryIn where
  "c4_input =
     \<lparr>categoryIn_name = ''c'',
      categoryIn_tasks = [c4_major ''third'' 3, c4_major ''first'' 1, c4_major ''second'' 2]\<rparr>"

definition c4_sum :: Estimates where
  "c4_sum = \<lparr>lowerEstimate = Fin 3, higherEstimate = Fin 6, complexity = Fin 3, confidence = Fin 3\<rparr>"

definition raw_skew_major :: "string \<Rightarrow> rat \<Rightarrow> rat \<Rightarrow> rat \<Rightarrow> jsval" where
  "raw_skew_major n p lo hi =
     raw_major n (Fin p) [raw_minor ''t'' (Fin lo) (Fin hi) (Fin 3) (Fin 3)]"

definition skew_major :: "string \<Rightarrow> rat \<Rightarrow> rat \<Rightarrow> rat \<Rightarrow> MajorTask" where
  "skew_major n p lo hi =
     major_of (majorIn n (Fin p) [minor ''t'' (Fin lo) (Fin hi) (Fin 3) (Fin 3)])
       \<lparr>lowerEstimate = Fin lo, higherEstimate = Fin hi, complexity = Fin 3, confidence = Fin 3\<rparr>"

definition skew_plan :: jsval where
  "skew_plan =
     raw_plan [raw_category ''c''
       [raw_skew_major ''y'' 3 1 9007199254740992,
        raw_skew_major ''z'' 2 1 1,
        raw_skew_major ''x'' 1 9007199254740992 1]]"

definition skew_input :: "MajorTask list" where
  "skew_input =
     [skew_major ''y'' 3 1 9007199254740992, skew_major ''z'' 2 1 1,
      skew_major ''x'' 1 9007199254740992 1]"

definition skew_sorted :: "MajorTask list" where
  "skew_sorted =
     [skew_major ''x'' 1 9007199254740992 1, skew_major ''z'' 2 1 1,
      skew_major ''y'' 3 1 9007199254740992]"

definition skew_first :: Estimates where
  "skew_first =
     \<lparr>lowerEstimate = Fin 9007199254740994, higherEstimate = Fin 9007199254740992,
      complexity = Fin 3, confidence = Fin 3\<rparr>"

definition skew_second :: Estimates where
  "skew_second =
     \<lparr>lowerEstimate = Fin 9007199254740992, higherEstimate = Fin 9007199254740994,
      complexity = Fin 3, confidence = Fin 3\<rparr>"

definition skew_result :: EstimateList where
  "skew_result = list_of [category_of ''c'' skew_sorted skew_second] skew_first"

definition skew_rerun :: EstimateList where
  "skew_rerun = list_of [category_of ''c'' skew_sorted skew_second] skew_second"

definition c7_parsed_major :: MajorTask where
  "c7_parsed_major = major_of (majorIn ''m'' (Fin 1) c7_tasks) c7_totals"

definition c7_parsed_category :: TaskCategory where
  "c7_parsed_category = category_of ''c'' [c7_parsed_major] c7_totals"

definition c7_parsed_plan :: EstimateList where
  "c7_parsed_plan = list_of [c7_parsed_category] c7_totals"

text \<open>
  A major task with six minor tasks of complexity and confidence 4, 4, 4, 1, 1, 1, the
  minor tasks it parses to, and its totals.
\<close>

definition c2_major :: jsval where
  "c2_major =
     raw_major ''m'' (Fin 1)
       [raw_minor ''a'' (Fin 1) (Fin 1) (Fin 4) (Fin 4),
        raw_minor ''b'' (Fin 1) (Fin 1) (Fin 4) (Fin 4),
        raw_minor ''c'' (Fin 1) (Fin 1) (Fin 4) (Fin 4),
        raw_minor ''d'' (Fin 1) (Fin 1) (Fin 1) (Fin 1),
        raw_minor ''e'' (Fin 1) (Fin 1) (Fin 1) (Fin 1),
        raw_minor ''f'' (Fin 1) (Fin 1) (Fin 1) (Fin 1)]"

definition c2_tasks :: "MinorTask list" where
  "c2_tasks =
     [minor ''a'' (Fin 1) (Fin 1) (Fin 4) (Fin 4), minor ''b'' (Fin 1) (Fin 1) (Fin 4) (Fin 4),
      minor ''c'' (Fin 1) (Fin 1) (Fin 4) (Fin 4), minor ''d'' (Fin 1) (Fin 1) (Fin 1) (Fin 1),
      minor ''e'' (Fin 1) (Fin 1) (Fin 1) (Fin 1), minor ''f'' (Fin 1) (Fin 1) (Fin 1) (Fin 1)]"

definition c2_totals :: Estimates where
  "c2_totals = \<lparr>lowerEstimate = Fin 6, higherEstimate = Fin 6, complexity = Fin 2, confidence = Fin 2\<rparr>"

definition c2_parsed :: MajorTask where
  "c2_parsed = major_of (majorIn ''m'' (Fin 1) c2_tasks) c2_totals"

text \<open>Major tasks whose minor tasks have the complexities 1, 2 and 2, 3, 4.\<close>

definition c2_pair :: jsval where
  "c2_pair =
     raw_major ''m'' (Fin 1)
       [raw_minor ''a'' (Fin 1) (Fin 1) (Fin 1) (Fin 1),
        raw_minor ''b'' (Fin 1) (Fin 1) (Fin 2) (Fin 2)]"

definition c2_pair_parsed :: MajorTask where
  "c2_pair_parsed =
     major_of
       (majorIn ''m'' (Fin 1)
         [minor ''a'' (Fin 1) (Fin 1) (Fin 1) (Fin 1), minor ''b'' (Fin 1) (Fin 1) (Fin 2) (Fin 2)])
       \<lparr>lowerEstimate = Fin 2, higherEstimate = Fin 2, complexity = Fin 2, confidence = Fin 2\<rparr>"

definition c2_triple :: jsval where
  "c2_triple =
     raw_major ''m'' (Fin 1)
       [raw_minor ''a'' (Fin 1) (Fin 1) (Fin 2) (Fin 2),
        raw_minor ''b'' (Fin 1) (Fin 1) (Fin 3) (Fin 3),
        raw_minor ''c'' (Fin 1) (Fin 1) (Fin 4) (Fin 4)]"

definition c2_triple_parsed :: MajorTask where
  "c2_triple_parsed =
     major_of
       (majorIn ''m'' (Fin 1)
         [minor ''a'' (Fin 1) (Fin 1) (Fin 2) (Fin 2), minor ''b'' (Fin 1) (Fin 1) (Fin 3) (Fin 3),
          minor ''c'' (Fin 1) (Fin 1) (Fin 4) (Fin 4)])
       \<lparr>lowerEstimate = Fin 3, higherEstimate = Fin 3, complexity = Fin 3, confidence = Fin 3\<rparr>"

text \<open>
  A second major task, at position 0 with the minor tasks \<open>d\<close>, \<open>c\<close>, and a plan whose
  category holds the major task \<open>m\<close> (position 1, minor tasks \<open>b\<close>, \<open>a\<close>) before it.
\<close>

definition c7_other :: jsval where
  "c7_other =
     raw_major ''n'' (Fin 0)
       [raw_minor ''d'' (Fin 1) (Fin 1) (Fin 1) (Fin 1),
        raw_minor ''c'' (Fin 1) (Fin 1) (Fin 1) (Fin 1)]"

definition c7_other_parsed :: MajorTask where
  "c7_other_parsed =
     major_of
       (majorIn ''n'' (Fin 0)
         [minor ''d'' (Fin 1) (Fin 1) (Fin 1) (Fin 1), minor ''c'' (Fin 1) (Fin 1) (Fin 1) (Fin 1)])
       \<lparr>lowerEstimate = Fin 2, higherEstimate = Fin 2, complexity = Fin 1, confidence = Fin 1\<rparr>"

definition c7_order_plan :: jsval where
  "c7_order_plan = raw_plan [raw_category ''c'' [c7_major, c7_other]]"

definition c7_order_totals :: Estimates where
  "c7_order_totals =
     \<lparr>lowerEstimate = Fin 5, higherEstimate = Fin 8, complexity = Fin 2, confidence = Fin 2\<rparr>"

definition c7_order_first :: TaskCategory where
  "c7_order_first = category_of ''c'' [c7_other_parsed, c7_parsed_major] c7_order_totals"

definition c7_order_result :: EstimateList where
  "c7_order_result = list_of [c7_order_first] c7_order_totals"

section \<open>Properties of the rounding\<close>

lemma bitlen_powi_bounds:
  assumes "0 < p"
  shows "(2::rat) powi (bitlen p - 1) \<le> of_int p" "of_int p < (2::rat) powi bitlen p"
proof -
  from assms have b: "1 \<le> bitlen p"
    by (simp add: bitlen_alt_def)
  from bitlen_bounds [OF assms] have lo: "2 ^ nat (bitlen p - 1) \<le> p" and hi: "p < 2 ^ nat (bitlen p)"
    by simp_all
  from lo have "(of_int (2 ^ nat (bitlen p - 1)) :: rat) \<le> of_int p"
    by (simp only: of_int_le_iff)
  with b show "(2::rat) powi (bitlen p - 1) \<le> of_int p"
    by (simp add: power_int_nonneg_exp)
  from hi have "(of_int p :: rat) < of_int (2 ^ nat (bitlen p))"
    by (simp only: of_int_less_iff)
  with b show "of_int p < (2::rat) powi bitlen p"
    by (simp add: power_int_nonneg_exp)
qed

lemma powi2_diff: "(2::rat) powi a / 2 powi b = 2 powi (a - b)"
  by (simp add: power_int_diff)

lemma ilog2_bounds:
  assumes "0 < x"
  shows "2 powi ilog2 x \<le> x" and "x < 2 powi (ilog2 x + 1)"
proof -
  obtain p q where pq: "quotient_of x = (p, q)"
    by (cases "quotient_of x")
  then have q: "0 < q" and x: "x = of_int p / of_int q"
    by (simp_all add: quotient_of_denom_pos quotient_of_div)
  with assms have p: "0 < p"
    by (simp add: zero_less_divide_iff)
  define d where "d = bitlen p - bitlen q"
  have qr: "(0::rat) < of_int q"
    using q by simp
  have pr: "(0::rat) < of_int p"
    using p by simp
  note bp = bitlen_powi_bounds [OF p] and bq = bitlen_powi_bounds [OF q]
  have "x < 2 powi bitlen p / of_int q"
    unfolding x using bp(2) qr by (rule divide_strict_right_mono)
  also have "\<dots> \<le> 2 powi bitlen p / 2 powi (bitlen q - 1)"
    using bq(1) qr by (intro divide_left_mono) (simp_all add: zero_less_mult_iff)
  also have "\<dots> = 2 powi (bitlen p - (bitlen q - 1))"
    by (rule powi2_diff)
  also have "bitlen p - (bitlen q - 1) = d + 1"
    by (simp add: d_def)
  finally have up: "x < 2 powi (d + 1)" .
  have "d - 1 = bitlen p - 1 - bitlen q"
    by (simp add: d_def)
  then have "(2::rat) powi (d - 1) = 2 powi (bitlen p - 1) / 2 powi bitlen q"
    by (simp only: powi2_diff)
  also have "\<dots> < 2 powi (bitlen p - 1) / of_int q"
    using bq(2) qr by (intro divide_strict_left_mono) (simp_all add: zero_less_mult_iff)
  also have "\<dots> \<le> x"
    unfolding x using bp(1) qr by (intro divide_right_mono) simp_all
  finally have low: "2 powi (d - 1) < x" .
  have eq: "ilog2 x = (if 2 powi d \<le> x then d else d - 1)"
    by (simp add: ilog2_def pq d_def Let_def)
  show "2 powi ilog2 x \<le> x"
    using low by (simp add: eq)
  show "x < 2 powi (ilog2 x + 1)"
    using up by (simp add: eq)
qed

lemma powi2_less_imp_less:
  assumes "(2::rat) powi a < 2 powi b"
  shows "a < b"
proof (rule ccontr)
  assume "\<not> a < b"
  then have "(2::rat) powi b \<le> 2 powi a"
    by (intro power_int_increasing) simp_all
  with assms show False
    by simp
qed

lemma ilog2_unique:
  assumes "2 powi e \<le> x" "x < 2 powi (e + 1)"
  shows "ilog2 x = e"
proof -
  have "(0::rat) < 2 powi e"
    by simp
  then have pos: "0 < x"
    using assms(1) by (rule less_le_trans)
  note b = ilog2_bounds [OF pos]
  have "(2::rat) powi e < 2 powi (ilog2 x + 1)"
    using assms(1) b(2) by (rule le_less_trans)
  then have "e < ilog2 x + 1"
    by (rule powi2_less_imp_less)
  moreover have "(2::rat) powi ilog2 x < 2 powi (e + 1)"
    using b(1) assms(2) by (rule le_less_trans)
  then have "ilog2 x < e + 1"
    by (rule powi2_less_imp_less)
  ultimately show ?thesis
    by simp
qed


lemma round_half_even_of_int [simp]: "round_half_even (of_int k) = k"
  by (simp add: round_half_even_def)

lemma round_half_even_0 [simp]: "round_half_even 0 = 0"
  by (simp add: round_half_even_def)

lemma round_half_even_mono:
  assumes "x \<le> y"
  shows "round_half_even x \<le> round_half_even y"
proof (cases "\<lfloor>x\<rfloor> = \<lfloor>y\<rfloor>")
  case True
  with assms show ?thesis
    by (auto simp: round_half_even_def Let_def)
next
  case False
  with assms have "\<lfloor>x\<rfloor> < \<lfloor>y\<rfloor>"
    by (simp add: floor_mono order.strict_iff_order)
  then have "\<lfloor>x\<rfloor> + 1 \<le> \<lfloor>y\<rfloor>"
    by simp
  moreover have "round_half_even x \<le> \<lfloor>x\<rfloor> + 1"
    by (simp add: round_half_even_def Let_def)
  moreover have "\<lfloor>y\<rfloor> \<le> round_half_even y"
    by (simp add: round_half_even_def Let_def)
  ultimately show ?thesis
    by linarith
qed

lemma round_half_even_ge: "of_int k \<le> x \<Longrightarrow> k \<le> round_half_even x"
  using round_half_even_mono [of "of_int k" x] by simp

lemma round_half_even_le: "x \<le> of_int k \<Longrightarrow> round_half_even x \<le> k"
  using round_half_even_mono [of x "of_int k"] by simp

lemma round_half_even_minus: "round_half_even (- x) = - round_half_even x"
proof (cases "x = of_int \<lfloor>x\<rfloor>")
  case True
  then obtain k where "x = of_int k" ..
  then have "round_half_even (- x) = round_half_even (of_int (- k))"
    by simp
  also have "\<dots> = - k"
    by (rule round_half_even_of_int)
  finally show ?thesis
    using \<open>x = of_int k\<close> by simp
next
  case False
  then have fl: "\<lfloor>- x\<rfloor> = - \<lfloor>x\<rfloor> - 1"
    by (metis ceiling_altdef ceiling_def diff_minus_eq_add minus_diff_eq uminus_add_conv_diff add.commute add_diff_cancel_left')
  show ?thesis
    unfolding round_half_even_def Let_def fl
    by (auto simp: algebra_simps)
qed

lemma quantum_pos [simp]: "0 < quantum x"
  by (simp add: quantum_def)

lemma quantum_nonneg [simp]: "0 \<le> quantum x"
  by (simp add: quantum_def)

lemma rnd_0 [simp]: "rnd 0 = 0"
  by (simp add: rnd_def)

lemma fl_classify: "fl x = classify (rnd x) x"
  by (simp add: fl_def classify_def rnd_def Let_def)

lemma quantum_minus [simp]: "quantum (- x) = quantum x"
  by (simp add: quantum_def expo_def)

lemma rnd_minus: "rnd (- x) = - rnd x"
  by (simp add: rnd_def round_half_even_minus)

lemma expo_ge [simp]: "- 1022 \<le> expo x"
  by (simp add: expo_def)

lemma ilog2_mono:
  assumes "0 < x" "x \<le> y"
  shows "ilog2 x \<le> ilog2 y"
proof -
  from assms have y: "0 < y"
    by simp
  have "2 powi ilog2 x \<le> x"
    using assms(1) by (rule ilog2_bounds)
  also note assms(2)
  also have "y < 2 powi (ilog2 y + 1)"
    using y by (rule ilog2_bounds)
  finally have "ilog2 x < ilog2 y + 1"
    by (rule powi2_less_imp_less)
  then show ?thesis
    by simp
qed

lemma expo_mono: "0 < x \<Longrightarrow> x \<le> y \<Longrightarrow> expo x \<le> expo y"
  using ilog2_mono [of "\<bar>x\<bar>" "\<bar>y\<bar>"] by (simp add: expo_def)

lemma abs_less_expo:
  assumes "x \<noteq> 0"
  shows "\<bar>x\<bar> < 2 powi (expo x + 1)"
proof -
  from assms have "\<bar>x\<bar> < 2 powi (ilog2 \<bar>x\<bar> + 1)"
    by (intro ilog2_bounds) simp
  also have "\<dots> \<le> 2 powi (expo x + 1)"
    by (intro power_int_increasing) (simp_all add: expo_def)
  finally show ?thesis .
qed

lemma quantum_scale52: "of_int (2 ^ 52) * quantum x = 2 powi expo x"
proof -
  have "expo x = 52 + (expo x - 52)"
    by simp
  then have "(2::rat) powi expo x = 2 powi (52 + (expo x - 52))"
    by (rule arg_cong)
  also have "\<dots> = 2 powi 52 * 2 powi (expo x - 52)"
    by (rule power_int_add) simp
  also have "(2::rat) powi 52 = of_int (2 ^ 52)"
    by simp
  finally show ?thesis
    by (simp only: quantum_def)
qed

lemma quantum_scale53: "of_int (2 ^ 53) * quantum x = 2 powi (expo x + 1)"
proof -
  have "expo x + 1 = 53 + (expo x - 52)"
    by simp
  then have "(2::rat) powi (expo x + 1) = 2 powi (53 + (expo x - 52))"
    by (rule arg_cong)
  also have "\<dots> = 2 powi 53 * 2 powi (expo x - 52)"
    by (rule power_int_add) simp
  also have "(2::rat) powi 53 = of_int (2 ^ 53)"
    by simp
  finally show ?thesis
    by (simp only: quantum_def)
qed

lemma rnd_le_pow:
  assumes "0 < x"
  shows "rnd x \<le> 2 powi (expo x + 1)"
proof -
  have "x / quantum x < 2 powi (expo x + 1) / 2 powi (expo x - 52)"
    unfolding quantum_def using abs_less_expo [of x] assms
    by (intro divide_strict_right_mono) simp_all
  also have "\<dots> = 2 powi (expo x + 1 - (expo x - 52))"
    by (rule powi2_diff)
  also have "\<dots> = of_int (2 ^ 53)"
    by simp
  finally have "round_half_even (x / quantum x) \<le> 2 ^ 53"
    by (intro round_half_even_le) simp
  then have "(of_int (round_half_even (x / quantum x)) :: rat) \<le> of_int (2 ^ 53)"
    by (simp only: of_int_le_iff)
  then have "rnd x \<le> of_int (2 ^ 53) * quantum x"
    unfolding rnd_def by (intro mult_right_mono) simp_all
  then show ?thesis
    by (simp only: quantum_scale53)
qed

lemma rnd_ge_pow:
  assumes "0 < x" "- 1022 < ilog2 x"
  shows "2 powi expo x \<le> rnd x"
proof -
  from assms have e: "expo x = ilog2 x"
    by (simp add: expo_def)
  have "2 powi expo x \<le> x"
    unfolding e using assms(1) by (rule ilog2_bounds)
  then have "2 powi expo x / 2 powi (expo x - 52) \<le> x / quantum x"
    unfolding quantum_def by (intro divide_right_mono) simp_all
  moreover have "2 powi expo x / 2 powi (expo x - 52) = (2::rat) powi (expo x - (expo x - 52))"
    by (rule powi2_diff)
  ultimately have "of_int (2 ^ 52) \<le> x / quantum x"
    by simp
  then have "2 ^ 52 \<le> round_half_even (x / quantum x)"
    by (rule round_half_even_ge)
  then have "(of_int (2 ^ 52) :: rat) \<le> of_int (round_half_even (x / quantum x))"
    by (simp only: of_int_le_iff)
  then have "of_int (2 ^ 52) * quantum x \<le> rnd x"
    unfolding rnd_def by (intro mult_right_mono) simp_all
  then show ?thesis
    by (simp only: quantum_scale52)
qed

lemma rnd_nonneg:
  assumes "0 \<le> x"
  shows "0 \<le> rnd x"
proof -
  from assms have "of_int 0 \<le> x / quantum x"
    by simp
  then have "0 \<le> round_half_even (x / quantum x)"
    by (rule round_half_even_ge)
  then show ?thesis
    unfolding rnd_def by (intro mult_nonneg_nonneg) simp_all
qed

lemma rnd_mono_pos:
  assumes "0 < x" "x \<le> y"
  shows "rnd x \<le> rnd y"
proof (cases "expo x = expo y")
  case True
  then have q: "quantum x = quantum y"
    by (simp add: quantum_def)
  have "x / quantum y \<le> y / quantum y"
    using assms(2) by (intro divide_right_mono) simp_all
  then have "round_half_even (x / quantum y) \<le> round_half_even (y / quantum y)"
    by (rule round_half_even_mono)
  then have "(of_int (round_half_even (x / quantum y)) :: rat) \<le> of_int (round_half_even (y / quantum y))"
    by (simp only: of_int_le_iff)
  then show ?thesis
    unfolding rnd_def q by (intro mult_right_mono) simp_all
next
  case False
  with expo_mono [OF assms] have lt: "expo x < expo y"
    by simp
  from assms have y: "0 < y"
    by simp
  have "- 1022 < expo y"
    using lt expo_ge [of x] by linarith
  with y have "- 1022 < ilog2 y"
    by (simp add: expo_def)
  with y have "2 powi expo y \<le> rnd y"
    by (rule rnd_ge_pow)
  moreover have "rnd x \<le> 2 powi (expo x + 1)"
    using assms(1) by (rule rnd_le_pow)
  moreover have "(2::rat) powi (expo x + 1) \<le> 2 powi expo y"
    using lt by (intro power_int_increasing) simp_all
  ultimately show ?thesis
    by linarith
qed

lemma rnd_mono:
  assumes "x \<le> y"
  shows "rnd x \<le> rnd y"
proof -
  consider "0 < x" | "x \<le> 0" "0 \<le> y" | "y < 0"
    using assms by linarith
  then show ?thesis
  proof cases
    case 1
    then show ?thesis
      using assms by (rule rnd_mono_pos)
  next
    case 2
    have "0 \<le> rnd (- x)"
      using 2(1) by (intro rnd_nonneg) simp
    then have "rnd x \<le> 0"
      by (simp add: rnd_minus)
    also have "0 \<le> rnd y"
      using 2(2) by (rule rnd_nonneg)
    finally show ?thesis .
  next
    case 3
    then have "rnd (- y) \<le> rnd (- x)"
      using assms by (intro rnd_mono_pos) simp_all
    then show ?thesis
      by (simp add: rnd_minus)
  qed
qed

lemma rnd_nonpos: "x \<le> 0 \<Longrightarrow> rnd x \<le> 0"
  using rnd_mono [of x 0] by simp

lemma fl_mono:
  assumes "x \<le> y"
  shows "js_le (fl x) (fl y)"
proof -
  have r: "rnd x \<le> rnd y"
    using assms by (rule rnd_mono)
  have x0: "x < 0 \<Longrightarrow> rnd x \<le> 0" and y0: "0 \<le> y \<Longrightarrow> 0 \<le> rnd y"
    by (simp_all add: rnd_nonpos rnd_nonneg)
  show ?thesis
    unfolding fl_classify classify_def using r assms x0 y0
    by (auto split: if_splits)
qed


lemma quantum_neq0 [simp]: "quantum x \<noteq> 0"
  by (simp add: quantum_def)

lemma rnd_exact:
  assumes "x / quantum x = of_int j"
  shows "rnd x = x"
proof -
  have "rnd x = of_int j * quantum x"
    unfolding rnd_def assms by simp
  also have "\<dots> = x / quantum x * quantum x"
    by (simp only: assms)
  also have "\<dots> = x"
    by simp
  finally show ?thesis .
qed

lemma fl_exact:
  assumes "x / quantum x = of_int j" "\<bar>x\<bar> < 2 ^ 1024"
  shows "fl x = Fin x"
  unfolding fl_classify rnd_exact [OF assms(1)] classify_def using assms(2)
  by (auto simp: abs_if split: if_splits)

lemma is_double_fl:
  assumes "is_double x"
  shows "fl x = Fin x"
proof (cases "x = 0")
  case True
  then show ?thesis
    by (simp add: fl_def)
next
  case False
  with assms have "x / quantum x = of_int \<lfloor>x / quantum x\<rfloor>" and "\<bar>x\<bar> < 2 ^ 1024"
    by (simp_all add: is_double_def)
  then show ?thesis
    by (rule fl_exact)
qed

lemma powi2_le_imp_le:
  assumes "(2::rat) powi a \<le> 2 powi b"
  shows "a \<le> b"
proof (rule ccontr)
  assume "\<not> a \<le> b"
  then have "(2::rat) powi b < 2 powi a"
    by (intro power_int_strict_increasing) simp_all
  with assms show False
    by simp
qed

lemma dyadic_grid:
  assumes m: "\<bar>m\<bar> \<le> 2 ^ 53" and k: "k \<le> 1074"
  shows "\<exists>j. (of_int m / 2 ^ k :: rat) / quantum (of_int m / 2 ^ k) = of_int j"
proof -
  define x :: rat where "x = of_int m / 2 ^ k"
  define s where "s = 52 - expo x - int k"
  have xq: "x / quantum x = of_int m * 2 powi s"
  proof -
    have "x / quantum x = of_int m * (1 / 2 powi (int k) / 2 powi (expo x - 52))"
      by (simp add: x_def quantum_def)
    also have "1 / (2::rat) powi (int k) = 2 powi (- int k)"
      by (simp add: power_int_minus_divide)
    also have "(2::rat) powi (- int k) / 2 powi (expo x - 52) = 2 powi (- int k - (expo x - 52))"
      by (rule powi2_diff)
    also have "- int k - (expo x - 52) = s"
      by (simp add: s_def)
    finally show ?thesis .
  qed
  show ?thesis
  proof (cases "0 \<le> s \<or> m = 0")
    case True
    then have "(2::rat) powi s = of_int (2 ^ nat s) \<or> m = 0"
      by (auto simp: power_int_nonneg_exp)
    then have "x / quantum x = of_int (m * 2 ^ nat s)"
      by (auto simp: xq)
    then show ?thesis
      unfolding x_def by blast
  next
    case False
    then have s: "53 \<le> expo x + int k" and x0: "x \<noteq> 0"
      by (simp_all add: s_def x_def)
    have "expo x \<noteq> - 1022"
      using s k by linarith
    then have e: "expo x = ilog2 \<bar>x\<bar>"
      by (simp add: expo_def max_def split: if_splits)
    have "2 powi expo x \<le> \<bar>x\<bar>"
      unfolding e using x0 by (intro ilog2_bounds) simp
    also have "\<bar>x\<bar> = of_int \<bar>m\<bar> / 2 powi (int k)"
      by (simp add: x_def)
    finally have "2 powi expo x * 2 powi (int k) \<le> (of_int \<bar>m\<bar> :: rat)"
      by (simp add: pos_le_divide_eq)
    then have le: "(2::rat) powi (expo x + int k) \<le> of_int \<bar>m\<bar>"
      by (simp add: power_int_add)
    also have "(of_int \<bar>m\<bar> :: rat) \<le> of_int (2 ^ 53)"
      using m by (simp only: of_int_le_iff)
    also have "(of_int (2 ^ 53) :: rat) = 2 powi 53"
      by simp
    finally have "expo x + int k \<le> 53"
      by (rule powi2_le_imp_le)
    with s have ek: "expo x + int k = 53"
      by simp
    with le have "(of_int (2 ^ 53) :: rat) \<le> of_int \<bar>m\<bar>"
      by simp
    then have "2 ^ 53 \<le> \<bar>m\<bar>"
      by (simp only: of_int_le_iff)
    with m have am: "\<bar>m\<bar> = 2 ^ 53"
      by simp
    from ek have "s = - 1"
      by (simp add: s_def)
    then have "x / quantum x = of_int m / 2"
      by (simp add: xq power_int_minus_divide)
    moreover from am have "m = 2 ^ 53 \<or> m = - (2 ^ 53)"
      by linarith
    then have "m = 2 * (m div 2)"
      by auto
    then have "(of_int m :: rat) / 2 = of_int (m div 2)"
      by (metis of_int_mult of_int_numeral nonzero_mult_div_cancel_left zero_neq_numeral)
    ultimately show ?thesis
      unfolding x_def by auto
  qed
qed

lemma fl_dyadic:
  assumes "\<bar>m\<bar> \<le> 2 ^ 53" "k \<le> 1074"
  shows "fl (of_int m / 2 ^ k) = Fin (of_int m / 2 ^ k)"
proof -
  obtain j where j: "(of_int m / 2 ^ k :: rat) / quantum (of_int m / 2 ^ k) = of_int j"
    using dyadic_grid [OF assms] ..
  have "\<bar>of_int m / 2 ^ k :: rat\<bar> \<le> \<bar>of_int m\<bar>"
    by (simp add: divide_le_eq_1 mult_le_cancel_left1 abs_mult field_simps)
  also have "\<dots> \<le> of_int (2 ^ 53)"
    using assms(1) by (simp only: of_int_abs [symmetric] of_int_le_iff)
  also have "\<dots> < 2 ^ 1024"
    by simp
  finally show ?thesis
    by (rule fl_exact [OF j])
qed

lemma fl_int: "\<bar>m\<bar> \<le> 2 ^ 53 \<Longrightarrow> fl (of_int m) = Fin (of_int m)"
  using fl_dyadic [of m 0] by simp


lemma fl_not_gt0:
  assumes "x \<le> 0"
  shows "\<not> js_gt0 (fl x)"
  using rnd_nonpos [OF assms]
  by (auto simp: fl_classify classify_def js_gt0_def split: if_splits)

lemma quantum_le:
  assumes "2 powi (- 1074) \<le> x"
  shows "quantum x \<le> x"
proof -
  have pos: "0 < x"
    using assms by (rule less_le_trans [rotated]) simp
  show ?thesis
  proof (cases "- 1022 \<le> ilog2 x")
    case True
    with pos have "expo x = ilog2 x"
      by (simp add: expo_def)
    then have "quantum x = 2 powi (ilog2 x - 52)"
      by (simp add: quantum_def)
    also have "\<dots> \<le> 2 powi ilog2 x"
      by (intro power_int_increasing) simp_all
    also have "\<dots> \<le> x"
      using pos by (rule ilog2_bounds)
    finally show ?thesis .
  next
    case False
    with pos have "expo x = - 1022"
      by (simp add: expo_def)
    then have "quantum x = 2 powi (- 1074)"
      by (simp add: quantum_def)
    with assms show ?thesis
      by simp
  qed
qed

lemma fl_gt0:
  assumes "2 powi (- 1074) \<le> x"
  shows "js_gt0 (fl x)"
proof -
  have "of_int 1 \<le> x / quantum x"
    using quantum_le [OF assms] by (simp add: pos_le_divide_eq)
  then have "1 \<le> round_half_even (x / quantum x)"
    by (rule round_half_even_ge)
  then have "(0::rat) < of_int (round_half_even (x / quantum x))"
    by simp
  then have "0 < rnd x"
    unfolding rnd_def by (intro mult_pos_pos) simp_all
  then show ?thesis
    by (auto simp: fl_classify classify_def js_gt0_def)
qed

lemma is_double_grid:
  assumes "is_double a"
  shows "\<exists>j. a = of_int j * 2 powi (- 1074)"
proof (cases "a = 0")
  case True
  then have "a = of_int 0 * 2 powi (- 1074)"
    by simp
  then show ?thesis ..
next
  case False
  with assms have "a / quantum a = of_int \<lfloor>a / quantum a\<rfloor>"
    by (simp add: is_double_def)
  then have a: "a = of_int \<lfloor>a / quantum a\<rfloor> * quantum a"
    by (metis nonzero_divide_eq_eq quantum_neq0)
  have "0 \<le> expo a + 1022"
    using expo_ge [of a] by linarith
  have "quantum a = 2 powi (expo a + 1022 + (- 1074))"
    by (simp add: quantum_def)
  also have "\<dots> = 2 powi (expo a + 1022) * 2 powi (- 1074)"
    by (rule power_int_add) simp
  also have "(2::rat) powi (expo a + 1022) = of_int (2 ^ nat (expo a + 1022))"
    using \<open>0 \<le> expo a + 1022\<close> by (simp add: power_int_nonneg_exp)
  finally have "a = of_int (\<lfloor>a / quantum a\<rfloor> * 2 ^ nat (expo a + 1022)) * 2 powi (- 1074)"
    using a by (metis of_int_mult mult.assoc)
  then show ?thesis ..
qed

lemma double_diff_gt0:
  assumes "is_double a" "is_double b"
  shows "js_gt0 (fl (a - b)) \<longleftrightarrow> b < a"
proof (cases "b < a")
  case True
  obtain j k where a: "a = of_int j * 2 powi (- 1074)" and b: "b = of_int k * 2 powi (- 1074)"
    using assms is_double_grid by blast
  have "(of_int k :: rat) < of_int j"
    using True unfolding a b by (simp add: mult_less_cancel_right)
  then have "k + 1 \<le> j"
    by simp
  then have "(of_int (k + 1) :: rat) \<le> of_int j"
    by (simp only: of_int_le_iff)
  then have "of_int (k + 1) * 2 powi (- 1074) \<le> (of_int j :: rat) * 2 powi (- 1074)"
    by (intro mult_right_mono) simp_all
  then have "2 powi (- 1074) \<le> a - b"
    unfolding a b by (simp add: algebra_simps)
  then show ?thesis
    using True by (simp add: fl_gt0)
next
  case False
  then show ?thesis
    by (simp add: fl_not_gt0)
qed

lemma is_double_0 [simp]: "is_double 0"
  by (simp add: is_double_def)

lemma gt0_sub:
  assumes "x \<noteq> NaN" "y \<noteq> NaN" "is_js_number x" "is_js_number y"
  shows "js_gt0 (js_sub x y) \<longleftrightarrow> \<not> js_le x y"
proof -
  have d: "js_gt0 (fl (a - b)) \<longleftrightarrow> b < a" if "is_double a" "is_double b" for a b
    using that by (rule double_diff_gt0)
  have z: "\<not> js_gt0 (fl 0)"
    by (simp add: fl_not_gt0)
  show ?thesis
  proof (cases x)
    case x: (Fin a)
    show ?thesis
    proof (cases y)
      case (Fin b)
      with x assms d [of a b] d [of a 0] show ?thesis
        by (auto simp: js_sub_def js_neg_def is_js_number_def)
    next
      case NZero
      with x assms d [of a 0] show ?thesis
        by (auto simp: js_sub_def js_neg_def is_js_number_def)
    qed (use x assms in \<open>simp_all add: js_sub_def js_neg_def js_gt0_def\<close>)
  next
    case x: NZero
    show ?thesis
    proof (cases y)
      case (Fin b)
      with x assms d [of 0 b] show ?thesis
        by (auto simp: js_sub_def js_neg_def is_js_number_def js_gt0_def)
    qed (use x assms z in \<open>simp_all add: js_sub_def js_neg_def js_gt0_def\<close>)
  qed (use assms in \<open>cases y; simp add: js_sub_def js_neg_def js_gt0_def\<close>)+
qed

lemma js_le_total: "x \<noteq> NaN \<Longrightarrow> y \<noteq> NaN \<Longrightarrow> js_le x y \<or> js_le y x"
  by (cases x; cases y) auto

lemma js_le_trans: "js_le x y \<Longrightarrow> js_le y z \<Longrightarrow> js_le x z"
  by (cases x; cases y; cases z) auto

lemma js_le_refl: "x \<noteq> NaN \<Longrightarrow> js_le x x"
  by (cases x) auto

lemma floor_numeral_div [simp]:
  "\<lfloor>(numeral a :: rat) / numeral b\<rfloor> = numeral a div numeral b"
  using floor_divide_of_int_eq [of "numeral a" "numeral b", where ?'a = rat] by simp

lemma fl_normal:
  assumes "2 powi e \<le> x" "x < 2 powi (e + 1)" "- 1022 \<le> e" "e < 1023"
  shows "fl x = Fin (of_int (round_half_even (x / 2 powi (e - 52))) * 2 powi (e - 52))"
proof -
  have pos: "0 < x"
    using assms(1) by (rule less_le_trans [rotated]) simp
  have "ilog2 x = e"
    using assms(1,2) by (rule ilog2_unique)
  with pos assms(3) have e: "expo x = e"
    by (simp add: expo_def)
  then have q: "quantum x = 2 powi (e - 52)"
    by (simp add: quantum_def)
  have "of_int (2 ^ 52) \<le> x / quantum x"
  proof -
    have "of_int (2 ^ 52) * quantum x \<le> x"
      unfolding quantum_scale52 e by (rule assms(1))
    then show ?thesis
      by (simp add: pos_le_divide_eq)
  qed
  then have "2 ^ 52 \<le> round_half_even (x / quantum x)"
    by (rule round_half_even_ge)
  then have "(0::rat) < of_int (round_half_even (x / quantum x))"
    by simp
  then have r0: "0 < rnd x"
    unfolding rnd_def by (intro mult_pos_pos) simp_all
  have "rnd x \<le> 2 powi (expo x + 1)"
    using pos by (rule rnd_le_pow)
  also have "\<dots> \<le> 2 powi 1023"
    unfolding e using assms(4) by (intro power_int_increasing) simp_all
  also have "\<dots> < 2 ^ 1024"
    by simp
  finally have "rnd x < 2 ^ 1024" .
  with r0 have "fl x = Fin (rnd x)"
    by (simp add: fl_classify classify_def)
  then show ?thesis
    by (simp add: rnd_def q)
qed

lemma fl_numeral [simp]:
  "numeral n \<le> (2::int) ^ 53 \<Longrightarrow> fl (numeral n) = Fin (numeral n)"
  using fl_int [of "numeral n"] by simp

lemma fl_1 [simp]: "fl 1 = Fin 1"
  using fl_int [of 1] by simp

lemma fl_0 [simp]: "fl 0 = Fin 0"
  by (simp add: fl_def)

lemma fl_half [simp]:
  "numeral n \<le> (2::int) ^ 53 \<Longrightarrow> fl (numeral n / 2) = Fin (numeral n / 2)"
  using fl_dyadic [of "numeral n" 1] by simp

lemma js_div_Fin:
  "a \<noteq> 0 \<Longrightarrow> b \<noteq> 0 \<Longrightarrow> js_div (Fin a) (Fin b) = fl (a / b)"
  by (simp add: js_div_def is_zero_def is_inf_def)

lemma Math_round_Fin_int [simp]: "Math_round (Fin (of_int k)) = Fin (of_int k)"
proof -
  have "\<lfloor>(of_int k :: rat) + 1 / 2\<rfloor> = k"
    by (rule floor_unique) simp_all
  then show ?thesis
    by (auto simp: Math_round_def)
qed

lemma Math_round_numeral [simp]: "Math_round (Fin (numeral n)) = Fin (numeral n)"
  using Math_round_Fin_int [of "numeral n"] by simp

lemma Math_round_1 [simp]: "Math_round (Fin 1) = Fin 1"
  using Math_round_Fin_int [of 1] by simp

lemma is_double_int:
  assumes "\<bar>m\<bar> \<le> 2 ^ 53"
  shows "is_double (of_int m)"
proof -
  obtain j where j: "(of_int m / 2 ^ 0 :: rat) / quantum (of_int m / 2 ^ 0) = of_int j"
    using dyadic_grid [OF assms, of 0] by auto
  then have "(of_int m :: rat) / quantum (of_int m) = of_int j"
    by simp
  then have "(of_int m :: rat) / quantum (of_int m) = of_int \<lfloor>(of_int m :: rat) / quantum (of_int m)\<rfloor>"
    by simp
  moreover have "\<bar>of_int m :: rat\<bar> \<le> of_int (2 ^ 53)"
    using assms by (simp only: of_int_abs [symmetric] of_int_le_iff)
  then have "\<bar>of_int m :: rat\<bar> < 2 ^ 1024"
    by simp
  ultimately show ?thesis
    by (simp add: is_double_def)
qed

lemma is_double_numeral [simp]: "numeral n \<le> (2::int) ^ 53 \<Longrightarrow> is_double (numeral n)"
  using is_double_int [of "numeral n"] by simp

lemma is_double_1 [simp]: "is_double 1"
  using is_double_int [of 1] by simp

lemma fl_neg_numeral [simp]:
  "numeral n \<le> (2::int) ^ 53 \<Longrightarrow> fl (- numeral n) = Fin (- numeral n)"
  using fl_int [of "- numeral n"] by simp

lemma fl_neg_1 [simp]: "fl (- 1) = Fin (- 1)"
  using fl_int [of "- 1"] by simp

lemma fl_not_NaN [simp]: "fl x \<noteq> NaN"
  by (simp add: fl_classify classify_def)

lemma js_le_PInf [simp]: "js_le x PInf \<longleftrightarrow> x \<noteq> NaN"
  by (cases x) simp_all

lemma js_le_NInf [simp]: "js_le NInf y \<longleftrightarrow> y \<noteq> NaN"
  by (cases y) simp_all

lemma js_le_NZero_left: "js_le NZero y \<longleftrightarrow> js_le (Fin 0) y"
  by (cases y) simp_all

lemma js_le_NZero_right: "js_le x NZero \<longleftrightarrow> js_le x (Fin 0)"
  by (cases x) simp_all

lemma js_le_NZero_fl: "0 \<le> x \<Longrightarrow> js_le NZero (fl x)"
  using fl_mono [of 0 x] by (simp add: js_le_NZero_left)

lemma js_le_fl_NZero: "x \<le> 0 \<Longrightarrow> js_le (fl x) NZero"
  using fl_mono [of x 0] by (simp add: js_le_NZero_right)

lemma js_add_mono:
  assumes "js_le a b" "js_le c d" "js_add a c \<noteq> NaN" "js_add b d \<noteq> NaN"
  shows "js_le (js_add a c) (js_add b d)"
  using assms
  by (cases a; cases b; cases c; cases d)
     (auto intro!: fl_mono js_le_NZero_fl js_le_fl_NZero)

lemma foldl_js_add_NaN [simp]: "foldl js_add NaN xs = NaN"
  by (induction xs) simp_all

lemma foldl_js_add_mono:
  assumes "list_all2 js_le xs ys" "js_le a b"
    "foldl js_add a xs \<noteq> NaN" "foldl js_add b ys \<noteq> NaN"
  shows "js_le (foldl js_add a xs) (foldl js_add b ys)"
  using assms
proof (induction arbitrary: a b rule: list_all2_induct)
  case Nil
  then show ?case by simp
next
  case (Cons x xs y ys)
  have "js_add a x \<noteq> NaN" "js_add b y \<noteq> NaN"
    using Cons.prems(2,3) by (auto simp: foldl_js_add_NaN)
  then have "js_le (js_add a x) (js_add b y)"
    using Cons.hyps(1) Cons.prems(1) by (intro js_add_mono)
  then show ?case
    using Cons.prems(2,3) by (simp add: Cons.IH)
qed

lemma fl_2p53_1 [simp]: "fl 9007199254740993 = Fin 9007199254740992"
  using fl_normal [of 53 9007199254740993] by (simp add: round_half_even_def Let_def)

lemma fl_2p53_2 [simp]: "fl 9007199254740994 = Fin 9007199254740994"
  using fl_normal [of 53 9007199254740994] by (simp add: round_half_even_def Let_def)

section \<open>Properties of the schemas\<close>

lemma bind_Inl [simp]: "bind (Inl e) f = Inl e"
  by (simp add: bind_def)

lemma bind_Inr [simp]: "bind (Inr x) f = f x"
  by (simp add: bind_def)

lemma bind_eq_Inr: "bind m f = Inr y \<longleftrightarrow> (\<exists>x. m = Inr x \<and> f x = Inr y)"
  by (cases m) auto

lemma property_Cons [simp]:
  "property ((k', x) # ps) k = (if k' = k then x else property ps k)"
  by (simp add: property_def)

lemma property_Nil [simp]: "property [] k = Undefined"
  by (simp add: property_def)

lemma property_optional [simp]:
  "property (optional_property k' v @ ps) k =
     (case v of None \<Rightarrow> property ps k | Some s \<Rightarrow> if k' = k then Str s else property ps k)"
  by (simp add: optional_property_def split: option.splits)

lemma property_optional_end [simp]:
  "property (optional_property k' v) k =
     (case v of None \<Rightarrow> Undefined | Some s \<Rightarrow> if k' = k then Str s else Undefined)"
  by (simp add: optional_property_def split: option.splits)

lemma field_Obj [simp]:
  "field (Obj fs) k p = p (property fs k)"
  by (simp add: field_def)

lemma field_eq_Inr:
  "field v k p = Inr y \<longleftrightarrow>
     (\<exists>fs. v = Obj fs \<and> p (property fs k) = Inr y)"
  by (cases v) (auto simp: field_def)

lemma z_number_eq_Inr: "z_number v = Inr x \<longleftrightarrow> v = Num x \<and> x \<noteq> NaN"
  by (cases v) (auto simp: z_number_def)

lemma z_string_eq_Inr: "z_string v = Inr s \<longleftrightarrow> v = Str s"
  by (cases v) (auto simp: z_string_def)

lemma estimates_eq_Inr:
  "estimates v = Inr e \<Longrightarrow>
     lowerEstimate e \<noteq> NaN \<and> higherEstimate e \<noteq> NaN \<and> complexity e \<noteq> NaN \<and> confidence e \<noteq> NaN
     \<and> field v ''lowerEstimate'' z_number = Inr (lowerEstimate e)
     \<and> field v ''higherEstimate'' z_number = Inr (higherEstimate e)
     \<and> field v ''complexity'' z_number = Inr (complexity e)
     \<and> field v ''confidence'' z_number = Inr (confidence e)"
  unfolding estimates_def bind_eq_Inr
  by (auto simp: z_number_eq_Inr field_eq_Inr)

lemma z_number_Num [simp]: "z_number (Num x) = (if x = NaN then Inl ZodError else Inr x)"
  by (simp add: z_number_def)

lemma z_string_Str [simp]: "z_string (Str s) = Inr s"
  by (simp add: z_string_def)

lemma z_string_optional_simps [simp]:
  "z_string_optional (Str s) = Inr (Some s)"
  "z_string_optional Undefined = Inr None"
  by (simp_all add: z_string_optional_def)

lemma z_array_Arr [simp]: "z_array p (Arr xs) = parse_all p xs"
  by (simp add: z_array_def)

lemma estimates_obj:
  "property ps ''lowerEstimate'' = Num (lowerEstimate e) \<Longrightarrow>
   property ps ''higherEstimate'' = Num (higherEstimate e) \<Longrightarrow>
   property ps ''complexity'' = Num (complexity e) \<Longrightarrow>
   property ps ''confidence'' = Num (confidence e) \<Longrightarrow>
   estimates (Obj ps) = (if ok_estimates e then Inr (Estimates.truncate e) else Inl ZodError)"
  by (simp add: estimates_def ok_estimates_def Estimates.truncate_def)

lemma minorTask_val: "ok_estimates t \<Longrightarrow> minorTask (val_of_MinorTask t) = Inr t"
  by (cases "comment t")
     (simp_all add: minorTask_def val_of_MinorTask_def obj_of_Estimates_def estimates_obj [of _ t]
        Estimates.truncate_def)

lemma parse_all_map:
  "(\<And>t. t \<in> set ts \<Longrightarrow> p (enc t) = Inr t) \<Longrightarrow> parse_all p (map enc ts) = Inr ts"
  by (induction ts) simp_all

lemma gantt_val: "position g \<noteq> NaN \<Longrightarrow> gantt (val_of_Gantt g) = Inr g"
  by (cases "label g"; cases "color g")
     (simp_all add: gantt_def val_of_Gantt_def optional_property_def)

lemma spread_major:
  "spread (obj_of_MajorTaskIn i) (obj_of_Estimates e) = obj_of_MajorTaskIn i @ obj_of_Estimates e"
  by (simp add: spread_def obj_of_MajorTaskIn_def obj_of_Estimates_def)

lemma val_of_major_of:
  "Obj (obj_of_MajorTaskIn i @ obj_of_Estimates e) = val_of_MajorTask (major_of i e)"
  by (simp add: val_of_MajorTask_def obj_of_MajorTaskIn_def obj_of_Estimates_def major_of_def)

lemma majorTask_pre_eq:
  "majorTask_pre v =
     bind (majorTaskIn v)
       (\<lambda>i. Inr (val_of_MajorTask (major_of i (totals_of (majorIn_tasks i)))))"
  by (simp add: majorTask_pre_def spread_major val_of_major_of Let_def)

lemma majorTaskIn_val:
  "ok_tasks (major_tasks m) (major_gantt m) \<Longrightarrow>
   majorTaskIn (val_of_MajorTask m) =
     Inr \<lparr>majorIn_name = major_name m, majorIn_tasks = major_tasks m,
          majorIn_gantt = major_gantt m\<rparr>"
  by (simp add: majorTaskIn_def val_of_MajorTask_def ok_tasks_def list_all_iff
        parse_all_map minorTask_val gantt_val)

lemma estimates_val_major:
  "estimates (val_of_MajorTask m) =
     (if ok_estimates m then Inr (Estimates.truncate m) else Inl ZodError)"
  by (simp add: val_of_MajorTask_def obj_of_Estimates_def estimates_obj [of _ m])

lemma majorTask_out_val:
  "ok_tasks (major_tasks m) (major_gantt m) \<Longrightarrow>
   majorTask_out (val_of_MajorTask m) = (if ok_estimates m then Inr m else Inl ZodError)"
  by (simp add: majorTask_out_def majorTaskIn_val estimates_val_major Estimates.truncate_def)

lemma parse_all_eq_Inr:
  "parse_all p xs = Inr ys \<longleftrightarrow> list_all2 (\<lambda>x y. p x = Inr y) xs ys"
proof (induction xs arbitrary: ys)
  case Nil
  then show ?case by auto
next
  case (Cons x xs)
  then show ?case
    by (cases ys) (auto simp: bind_eq_Inr)
qed

lemma minorTask_ok: "minorTask v = Inr t \<Longrightarrow> ok_estimates t"
  unfolding minorTask_def bind_eq_Inr
  by (auto dest!: estimates_eq_Inr simp: ok_estimates_def)

lemma gantt_ok: "gantt v = Inr g \<Longrightarrow> position g \<noteq> NaN"
  unfolding gantt_def bind_eq_Inr
  by (auto simp: field_eq_Inr z_number_eq_Inr)

lemma z_array_eq_Inr:
  "z_array p v = Inr ys \<longleftrightarrow> (\<exists>xs. v = Arr xs \<and> list_all2 (\<lambda>x y. p x = Inr y) xs ys)"
  by (cases v) (auto simp: z_array_def parse_all_eq_Inr)

lemma list_all2_parsed:
  "list_all2 (\<lambda>x y. p x = Inr y) xs ys \<Longrightarrow> (\<And>x y. p x = Inr y \<Longrightarrow> Q y) \<Longrightarrow> list_all Q ys"
  by (induction xs ys rule: list_all2_induct) auto

lemma parsed_minors_ok:
  "list_all2 (\<lambda>x y. minorTask x = Inr y) xs ys \<Longrightarrow> list_all ok_estimates ys"
  by (erule list_all2_parsed) (rule minorTask_ok)

lemma majorTaskIn_ok:
  "majorTaskIn v = Inr i \<Longrightarrow> ok_tasks (majorIn_tasks i) (majorIn_gantt i)"
  unfolding majorTaskIn_def bind_eq_Inr field_eq_Inr z_array_eq_Inr
  by (auto simp: ok_tasks_def dest: gantt_ok parsed_minors_ok)

lemma majorTask_eq:
  "majorTask v =
     bind (majorTaskIn v)
       (\<lambda>i. if ok_estimates (totals_of (majorIn_tasks i))
            then Inr (major_of i (totals_of (majorIn_tasks i))) else Inl ZodError)"
proof (cases "majorTaskIn v")
  case (Inl e)
  then show ?thesis
    by (simp add: majorTask_def z_preprocess_def majorTask_pre_eq)
next
  case (Inr i)
  let ?m = "major_of i (totals_of (majorIn_tasks i))"
  from Inr have "ok_tasks (major_tasks ?m) (major_gantt ?m)"
    by (simp add: major_of_def majorTaskIn_ok)
  then have "majorTask_out (val_of_MajorTask ?m) = (if ok_estimates ?m then Inr ?m else Inl ZodError)"
    by (rule majorTask_out_val)
  moreover have "ok_estimates ?m = ok_estimates (totals_of (majorIn_tasks i))"
    by (simp add: ok_estimates_def major_of_def)
  ultimately show ?thesis
    using Inr by (simp add: majorTask_def z_preprocess_def majorTask_pre_eq)
qed

lemma majorTask_aggregated: "majorTask v = Inr m \<Longrightarrow> aggregated_major m"
  unfolding majorTask_eq bind_eq_Inr
  by (auto simp: aggregated_major_def major_of_def ok_estimates_def Estimates.truncate_def
      dest: majorTaskIn_ok split: if_splits)

lemma truncate_eq_fields:
  "Estimates.truncate m = e \<Longrightarrow>
     lowerEstimate e = lowerEstimate m \<and> higherEstimate e = higherEstimate m
     \<and> complexity e = complexity m \<and> confidence e = confidence m"
  by (auto simp: Estimates.truncate_def)

lemma majorTask_val:
  assumes "aggregated_major m"
  shows "majorTask (val_of_MajorTask m) = Inr m"
proof -
  let ?e = "totals_of (major_tasks m)"
  from assms have ok: "ok_tasks (major_tasks m) (major_gantt m)" and oke: "ok_estimates m"
    and eq: "Estimates.truncate m = ?e"
    by (simp_all add: aggregated_major_def)
  note f = truncate_eq_fields [OF eq]
  from oke f have "ok_estimates ?e"
    by (simp add: ok_estimates_def)
  moreover from f have "major_of \<lparr>majorIn_name = major_name m, majorIn_tasks = major_tasks m,
      majorIn_gantt = major_gantt m\<rparr> ?e = m"
    by (simp add: major_of_def)
  ultimately show ?thesis
    by (simp add: majorTask_eq majorTaskIn_val [OF ok])
qed

lemma set_sort_insert [simp]: "set (sort_insert cmp x ys) = insert x (set ys)"
  by (induction ys) auto

lemma set_js_sort [simp]: "set (js_sort cmp xs) = set xs"
  by (induction xs) (simp_all add: js_sort_def)

lemma spread_category:
  "spread (obj_of_TaskCategoryIn i) (obj_of_Estimates e) =
     obj_of_TaskCategoryIn i @ obj_of_Estimates e"
  by (simp add: spread_def obj_of_TaskCategoryIn_def obj_of_Estimates_def)

lemma val_of_category_of:
  "Obj (obj_of_TaskCategoryIn i @ obj_of_Estimates e) =
     val_of_TaskCategory (category_of (categoryIn_name i) (categoryIn_tasks i) e)"
  by (simp add: val_of_TaskCategory_def obj_of_TaskCategoryIn_def obj_of_Estimates_def
        category_of_def)

lemma taskCategory_pre_eq:
  "taskCategory_pre v =
     bind (taskCategoryIn v)
       (\<lambda>i. Inr (val_of_TaskCategory
          (category_of (categoryIn_name i) (js_sort by_position (categoryIn_tasks i))
             (totals_of (categoryIn_tasks i)))))"
  by (simp add: taskCategory_pre_def spread_category val_of_category_of Let_def)

lemma taskCategoryIn_val:
  "list_all aggregated_major (category_tasks c) \<Longrightarrow>
   taskCategoryIn (val_of_TaskCategory c) =
     Inr \<lparr>categoryIn_name = category_name c, categoryIn_tasks = category_tasks c\<rparr>"
  by (simp add: taskCategoryIn_def val_of_TaskCategory_def list_all_iff
        parse_all_map majorTask_val)

lemma estimates_val_category:
  "estimates (val_of_TaskCategory c) =
     (if ok_estimates c then Inr (Estimates.truncate c) else Inl ZodError)"
  by (simp add: val_of_TaskCategory_def obj_of_Estimates_def estimates_obj [of _ c])

lemma taskCategory_out_val:
  "list_all aggregated_major (category_tasks c) \<Longrightarrow>
   taskCategory_out (val_of_TaskCategory c) = (if ok_estimates c then Inr c else Inl ZodError)"
  by (simp add: taskCategory_out_def taskCategoryIn_val estimates_val_category
        Estimates.truncate_def)

lemma parsed_majors_ok:
  "list_all2 (\<lambda>x y. majorTask x = Inr y) xs ys \<Longrightarrow> list_all aggregated_major ys"
  by (erule list_all2_parsed) (rule majorTask_aggregated)

lemma taskCategoryIn_ok:
  "taskCategoryIn v = Inr i \<Longrightarrow> list_all aggregated_major (categoryIn_tasks i)"
  unfolding taskCategoryIn_def bind_eq_Inr field_eq_Inr z_array_eq_Inr
  by (auto dest: parsed_majors_ok)

lemma taskCategory_eq:
  "taskCategory v =
     bind (taskCategoryIn v)
       (\<lambda>i. if ok_estimates (totals_of (categoryIn_tasks i))
            then Inr (category_of (categoryIn_name i) (js_sort by_position (categoryIn_tasks i))
                       (totals_of (categoryIn_tasks i)))
            else Inl ZodError)"
proof (cases "taskCategoryIn v")
  case (Inl e)
  then show ?thesis
    by (simp add: taskCategory_def z_preprocess_def taskCategory_pre_eq)
next
  case (Inr i)
  let ?c = "category_of (categoryIn_name i) (js_sort by_position (categoryIn_tasks i))
              (totals_of (categoryIn_tasks i))"
  from Inr have "list_all aggregated_major (category_tasks ?c)"
    using taskCategoryIn_ok [OF Inr] by (simp add: category_of_def list_all_iff)
  then have "taskCategory_out (val_of_TaskCategory ?c) =
      (if ok_estimates ?c then Inr ?c else Inl ZodError)"
    by (rule taskCategory_out_val)
  moreover have "ok_estimates ?c = ok_estimates (totals_of (categoryIn_tasks i))"
    by (simp add: ok_estimates_def category_of_def)
  ultimately show ?thesis
    using Inr by (simp add: taskCategory_def z_preprocess_def taskCategory_pre_eq)
qed

lemma taskCategory_majors:
  "taskCategory v = Inr c \<Longrightarrow> list_all aggregated_major (category_tasks c)"
  unfolding taskCategory_eq bind_eq_Inr
  by (auto simp: category_of_def list_all_iff dest!: taskCategoryIn_ok split: if_splits)

lemma taskCategory_val:
  "list_all aggregated_major (category_tasks c) \<Longrightarrow>
   taskCategory (val_of_TaskCategory c) = reaggregate c"
  by (simp add: taskCategory_eq taskCategoryIn_val reaggregate_def)

lemma spread_list:
  "spread (obj_of_Input i) (obj_of_Estimates e) = obj_of_Input i @ obj_of_Estimates e"
  by (simp add: spread_def obj_of_Input_def obj_of_Estimates_def)

lemma val_of_list_of:
  "Obj (obj_of_Input i @ obj_of_Estimates e) = val_of_EstimateList (list_of (input_estimates i) e)"
  by (simp add: val_of_EstimateList_def obj_of_Input_def obj_of_Estimates_def list_of_def)

lemma estimateList_pre_eq:
  "estimateList_pre v =
     bind (estimateSchema v)
       (\<lambda>i. Inr (val_of_EstimateList (list_of (input_estimates i)
                    (totals_of (input_estimates i)))))"
  by (simp add: estimateList_pre_def spread_list val_of_list_of Let_def)

lemma parse_all_cong:
  "(\<And>x. x \<in> set xs \<Longrightarrow> p x = q x) \<Longrightarrow> parse_all p xs = parse_all q xs"
  by (induction xs) simp_all

lemma parse_all_map_comp: "parse_all p (map f xs) = parse_all (p \<circ> f) xs"
  by (induction xs) simp_all

lemma estimateSchema_val:
  "\<forall>c \<in> set (list_estimates l). list_all aggregated_major (category_tasks c) \<Longrightarrow>
   estimateSchema (val_of_EstimateList l) =
     bind (parse_all reaggregate (list_estimates l)) (\<lambda>cs. Inr \<lparr>input_estimates = cs\<rparr>)"
proof -
  assume a: "\<forall>c \<in> set (list_estimates l). list_all aggregated_major (category_tasks c)"
  have "parse_all taskCategory (map val_of_TaskCategory (list_estimates l)) =
      parse_all reaggregate (list_estimates l)"
    unfolding parse_all_map_comp
    by (rule parse_all_cong) (use a in \<open>simp add: taskCategory_val\<close>)
  then show ?thesis
    by (simp add: estimateSchema_def val_of_EstimateList_def)
qed

lemma estimates_val_list:
  "estimates (val_of_EstimateList l) =
     (if ok_estimates l then Inr (Estimates.truncate l) else Inl ZodError)"
  by (simp add: val_of_EstimateList_def obj_of_Estimates_def estimates_obj [of _ l])

lemma parsed_categories_ok:
  "list_all2 (\<lambda>x y. taskCategory x = Inr y) xs ys \<Longrightarrow>
     list_all (\<lambda>c. list_all aggregated_major (category_tasks c)) ys"
  by (erule list_all2_parsed) (rule taskCategory_majors)

lemma estimateSchema_ok:
  "estimateSchema v = Inr i \<Longrightarrow>
     \<forall>c \<in> set (input_estimates i). list_all aggregated_major (category_tasks c)"
  unfolding estimateSchema_def bind_eq_Inr field_eq_Inr z_array_eq_Inr
  by (auto simp flip: list_all_iff dest: parsed_categories_ok)

lemma estimateList_eq:
  "estimateList v =
     bind (estimateSchema v) (\<lambda>i.
     bind (parse_all reaggregate (input_estimates i)) (\<lambda>cs.
       if ok_estimates (totals_of (input_estimates i))
       then Inr (list_of cs (totals_of (input_estimates i))) else Inl ZodError))"
proof (cases "estimateSchema v")
  case (Inl e)
  then show ?thesis
    by (simp add: estimateList_def z_preprocess_def estimateList_pre_eq)
next
  case (Inr i)
  let ?l = "list_of (input_estimates i) (totals_of (input_estimates i))"
  have "\<forall>c \<in> set (list_estimates ?l). list_all aggregated_major (category_tasks c)"
    using estimateSchema_ok [OF Inr] by (simp add: list_of_def)
  then have "estimateSchema (val_of_EstimateList ?l) =
      bind (parse_all reaggregate (list_estimates ?l)) (\<lambda>cs. Inr \<lparr>input_estimates = cs\<rparr>)"
    by (rule estimateSchema_val)
  moreover have "ok_estimates ?l = ok_estimates (totals_of (input_estimates i))"
    by (simp add: ok_estimates_def list_of_def)
  moreover have "list_estimates ?l = input_estimates i"
    by (simp add: list_of_def)
  ultimately show ?thesis
    using Inr
    by (cases "parse_all reaggregate (input_estimates i)")
       (simp_all add: estimateList_def z_preprocess_def estimateList_pre_eq estimateList_out_def
          estimates_val_list Estimates.truncate_def list_of_def)
qed

lemma Math_round_0 [simp]: "Math_round (Fin 0) = Fin 0"
proof -
  have "\<lfloor>(1::rat) / 2\<rfloor> = 0"
    by (rule floor_unique) simp_all
  then show ?thesis
    by (simp add: Math_round_def)
qed

lemma totals_of_Nil [simp]: "totals_of [] = zero_totals"
  by (simp add: totals_of_def reduce_totals_def zero_totals_def)

lemma ok_zero_totals [simp]: "ok_estimates zero_totals"
  by (simp add: ok_estimates_def zero_totals_def)

lemma foldl_add_task:
  "foldl (add_task len) acc ts =
     \<lparr>lowerEstimate = foldl js_add (lowerEstimate acc) (map lowerEstimate ts),
      higherEstimate = foldl js_add (higherEstimate acc) (map higherEstimate ts),
      complexity = foldl (\<lambda>a x. js_add a (js_div x len)) (complexity acc) (map complexity ts),
      confidence = foldl (\<lambda>a x. js_add a (js_div x len)) (confidence acc) (map confidence ts)\<rparr>"
  by (induction ts arbitrary: acc) (simp_all add: add_task_def)

lemma totals_of_eq:
  "totals_of ts =
     \<lparr>lowerEstimate = sum_of (map lowerEstimate ts),
      higherEstimate = sum_of (map higherEstimate ts),
      complexity = mean_of (map complexity ts),
      confidence = mean_of (map confidence ts)\<rparr>"
  by (simp add: totals_of_def reduce_totals_def foldl_add_task zero_totals_def sum_of_def
      mean_of_def js_length_def Let_def)

lemma z_string_optional_eq_Inr:
  "z_string_optional v = Inr s \<longleftrightarrow> (v = Undefined \<and> s = None) \<or> (\<exists>t. v = Str t \<and> s = Some t)"
  by (cases v) (auto simp: z_string_optional_def)

lemma minorTask_shape: "minorTask v = Inr t \<Longrightarrow> shape_minor v"
  unfolding minorTask_def estimates_def bind_eq_Inr field_eq_Inr
  by (auto simp: shape_minor_def is_string_def is_number_def is_optional_string_def
      z_string_eq_Inr z_number_eq_Inr z_string_optional_eq_Inr)

lemma gantt_shape: "gantt v = Inr g \<Longrightarrow> shape_gantt v"
  unfolding gantt_def bind_eq_Inr field_eq_Inr
  by (auto simp: shape_gantt_def is_string_def is_number_def is_optional_string_def
      z_string_eq_Inr z_number_eq_Inr z_string_optional_eq_Inr)

lemma z_array_shape:
  assumes "z_array p v = Inr ys" "\<And>x y. p x = Inr y \<Longrightarrow> P x"
  shows "is_array_of P v"
proof -
  from assms(1) obtain xs where v: "v = Arr xs" and l: "list_all2 (\<lambda>x y. p x = Inr y) xs ys"
    unfolding z_array_eq_Inr by blast
  from l have "list_all P xs"
    by (induction rule: list_all2_induct) (auto intro: assms(2))
  with v show ?thesis
    by (simp add: is_array_of_def)
qed

lemma majorTaskIn_shape: "majorTaskIn v = Inr i \<Longrightarrow> shape_major v"
  unfolding majorTaskIn_def bind_eq_Inr field_eq_Inr
  by (auto simp: shape_major_def is_string_def z_string_eq_Inr
      intro: gantt_shape z_array_shape [OF _ minorTask_shape])

lemma majorTask_shape: "majorTask v = Inr m \<Longrightarrow> shape_major v"
  unfolding majorTask_eq bind_eq_Inr
  by (auto intro: majorTaskIn_shape)

lemma taskCategoryIn_shape: "taskCategoryIn v = Inr i \<Longrightarrow> shape_category v"
  unfolding taskCategoryIn_def bind_eq_Inr field_eq_Inr
  by (auto simp: shape_category_def is_string_def z_string_eq_Inr
      intro: z_array_shape [OF _ majorTask_shape])

lemma taskCategory_shape: "taskCategory v = Inr c \<Longrightarrow> shape_category v"
  unfolding taskCategory_eq bind_eq_Inr
  by (auto intro: taskCategoryIn_shape)

lemma estimateSchema_shape: "estimateSchema v = Inr i \<Longrightarrow> shape_plan v"
  unfolding estimateSchema_def bind_eq_Inr field_eq_Inr
  by (auto simp: shape_plan_def intro: z_array_shape [OF _ taskCategory_shape])

lemma estimateList_shape: "estimateList v = Inr l \<Longrightarrow> shape_plan v"
  unfolding estimateList_eq bind_eq_Inr
  by (auto intro: estimateSchema_shape)

lemma not_Inr_error: "(\<And>y. r \<noteq> Inr y) \<Longrightarrow> r = Inl ZodError"
  by (cases r) (auto intro: error.exhaust)

lemma property_without_estimates:
  "k \<notin> set estimate_keys \<Longrightarrow> property (without_estimates fs) k = property fs k"
  by (induction fs) (auto simp: without_estimates_def property_def)

lemma property_map_property:
  "property (map_property k f fs) k' =
     (if k' = k then (case map_of fs k of None \<Rightarrow> Undefined | Some x \<Rightarrow> f x) else property fs k')"
  by (induction fs) (auto simp: map_property_def property_def)

lemma map_of_without_estimates:
  "k \<notin> set estimate_keys \<Longrightarrow> map_of (without_estimates fs) k = map_of fs k"
  by (induction fs) (auto simp: without_estimates_def)

lemma majorTaskIn_erase: "majorTaskIn (erase_major v) = majorTaskIn v"
  by (cases v)
     (simp_all add: erase_major_def majorTaskIn_def property_without_estimates estimate_keys_def)

lemma majorTask_erase: "majorTask (erase_major v) = majorTask v"
  by (simp add: majorTask_eq majorTaskIn_erase)

lemma z_array_map_elements:
  "(\<And>x. p (f x) = p x) \<Longrightarrow> z_array p (map_elements f v) = z_array p v"
  by (cases v) (simp_all add: map_elements_def z_array_def parse_all_map_comp o_def)

lemma z_array_Undefined [simp]: "z_array p Undefined = Inl ZodError"
  by (simp add: z_array_def)

lemma z_array_mapped_property:
  assumes "\<And>x. p (f x) = p x" "k \<notin> set estimate_keys"
  shows "z_array p (property (map_property k (map_elements f) (without_estimates fs)) k) =
    z_array p (property fs k)"
proof (cases "map_of fs k")
  case None
  then show ?thesis
    using assms(2)
    by (simp add: property_map_property map_of_without_estimates) (simp add: property_def)
next
  case (Some x)
  then show ?thesis
    using assms
    by (simp add: property_map_property map_of_without_estimates z_array_map_elements)
       (simp add: property_def)
qed

lemma taskCategoryIn_erase: "taskCategoryIn (erase_category v) = taskCategoryIn v"
proof (cases v)
  case (Obj fs)
  have "z_array majorTask
      (property (map_property ''tasks'' (map_elements erase_major) (without_estimates fs)) ''tasks'')
      = z_array majorTask (property fs ''tasks'')"
    by (rule z_array_mapped_property) (simp_all add: majorTask_erase estimate_keys_def)
  then show ?thesis
    by (simp add: Obj erase_category_def taskCategoryIn_def property_map_property
        property_without_estimates estimate_keys_def)
qed (simp_all add: erase_category_def)

lemma taskCategory_erase: "taskCategory (erase_category v) = taskCategory v"
  by (simp add: taskCategory_eq taskCategoryIn_erase)

lemma estimateSchema_erase: "estimateSchema (erase_plan v) = estimateSchema v"
proof (cases v)
  case (Obj fs)
  have "z_array taskCategory
      (property (map_property ''estimates'' (map_elements erase_category) (without_estimates fs))
         ''estimates'')
      = z_array taskCategory (property fs ''estimates'')"
    by (rule z_array_mapped_property) (simp_all add: taskCategory_erase estimate_keys_def)
  then show ?thesis
    by (simp add: Obj erase_plan_def estimateSchema_def)
qed (simp_all add: erase_plan_def)

lemma estimateList_erase: "estimateList (erase_plan v) = estimateList v"
  by (simp add: estimateList_eq estimateSchema_erase)

lemma minorTask_raw:
  "lo \<noteq> NaN \<Longrightarrow> hi \<noteq> NaN \<Longrightarrow> cx \<noteq> NaN \<Longrightarrow> cf \<noteq> NaN \<Longrightarrow>
   minorTask (raw_minor n lo hi cx cf) = Inr (minor n lo hi cx cf)"
  by (simp add: raw_minor_def minor_def minorTask_def estimates_def)

lemma majorTaskIn_raw:
  "parse_all minorTask ts = Inr ts' \<Longrightarrow> p \<noteq> NaN \<Longrightarrow>
   majorTaskIn (raw_major n p ts) = Inr (majorIn n p ts')"
  by (simp add: raw_major_def majorIn_def majorTaskIn_def gantt_def)

lemma taskCategoryIn_raw:
  "parse_all majorTask ts = Inr ts' \<Longrightarrow>
   taskCategoryIn (raw_category n ts) = Inr \<lparr>categoryIn_name = n, categoryIn_tasks = ts'\<rparr>"
  by (simp add: raw_category_def taskCategoryIn_def)

lemma estimateSchema_raw:
  "parse_all taskCategory cs = Inr cs' \<Longrightarrow>
   estimateSchema (raw_plan cs) = Inr \<lparr>input_estimates = cs'\<rparr>"
  by (simp add: raw_plan_def estimateSchema_def)

text \<open>C7\<close>

lemma majorTask_tasks:
  assumes "majorTask v = Inr m"
  shows "\<exists>fs xs. v = Obj fs \<and> property fs ''tasks'' = Arr xs
     \<and> list_all2 (\<lambda>x t. minorTask x = Inr t) xs (major_tasks m)"
proof -
  from assms obtain i where i: "majorTaskIn v = Inr i" and m: "major_tasks m = majorIn_tasks i"
    unfolding majorTask_eq bind_eq_Inr by (auto simp: major_of_def split: if_splits)
  from i show ?thesis
    unfolding majorTaskIn_def bind_eq_Inr field_eq_Inr z_array_eq_Inr m by auto
qed

lemma list_all2_compose:
  "list_all2 P xs ys \<Longrightarrow> list_all2 Q ys zs \<Longrightarrow> list_all2 (\<lambda>x z. \<exists>y. P x y \<and> Q y z) xs zs"
proof (induction arbitrary: zs rule: list_all2_induct)
  case Nil
  then show ?case by simp
next
  case (Cons x xs y ys)
  then show ?case
    by (cases zs) auto
qed

lemma estimateList_categories:
  assumes "estimateList v = Inr l"
  shows "\<exists>fs xs. v = Obj fs \<and> property fs ''estimates'' = Arr xs
     \<and> list_all2 (\<lambda>x c. \<exists>c1. taskCategory x = Inr c1
           \<and> taskCategory (val_of_TaskCategory c1) = Inr c) xs (list_estimates l)"
proof -
  from assms obtain i where i: "estimateSchema v = Inr i"
    and r: "parse_all reaggregate (input_estimates i) = Inr (list_estimates l)"
    unfolding estimateList_eq bind_eq_Inr by (auto simp: list_of_def split: if_splits)
  from i obtain fs xs where v: "v = Obj fs" and p: "property fs ''estimates'' = Arr xs"
    and a: "list_all2 (\<lambda>x c. taskCategory x = Inr c) xs (input_estimates i)"
    unfolding estimateSchema_def bind_eq_Inr field_eq_Inr z_array_eq_Inr by auto
  from r have b: "list_all2 (\<lambda>c1 c. reaggregate c1 = Inr c) (input_estimates i) (list_estimates l)"
    by (simp add: parse_all_eq_Inr)
  have "list_all2 (\<lambda>x c. \<exists>c1. taskCategory x = Inr c1 \<and> reaggregate c1 = Inr c)
      xs (list_estimates l)"
    using a b by (rule list_all2_compose)
  then have "list_all2 (\<lambda>x c. \<exists>c1. taskCategory x = Inr c1
           \<and> taskCategory (val_of_TaskCategory c1) = Inr c) xs (list_estimates l)"
    by (rule list_all2_mono) (use taskCategory_majors taskCategory_val in fastforce)
  with v p show ?thesis
    by blast
qed

lemma by_position_gt0:
  "position_ok a \<Longrightarrow> position_ok b \<Longrightarrow> js_gt0 (by_position a b) \<longleftrightarrow> \<not> position_le a b"
  by (simp add: by_position_def position_ok_def position_le_def gt0_sub)

lemma position_le_total:
  "position_ok a \<Longrightarrow> position_ok b \<Longrightarrow> position_le a b \<or> position_le b a"
  by (simp add: position_ok_def position_le_def js_le_total)

lemma position_le_trans: "position_le a b \<Longrightarrow> position_le b c \<Longrightarrow> position_le a c"
  unfolding position_le_def by (rule js_le_trans)

lemma sorted_sort_insert:
  assumes "position_ok x" "list_all position_ok ys" "sorted_wrt position_le ys"
  shows "sorted_wrt position_le (sort_insert by_position x ys)"
  using assms
proof (induction ys)
  case Nil
  then show ?case by simp
next
  case (Cons y ys)
  show ?case
  proof (cases "js_gt0 (by_position x y)")
    case True
    with Cons.prems have "\<not> position_le x y"
      by (simp add: by_position_gt0)
    with Cons.prems have "position_le y x"
      using position_le_total [of x y] by simp
    with Cons True show ?thesis
      by auto
  next
    case False
    with Cons.prems have xy: "position_le x y"
      by (simp add: by_position_gt0)
    then have "\<forall>z\<in>set ys. position_le x z"
      using Cons.prems(3) by (auto intro: position_le_trans)
    with Cons.prems xy False show ?thesis
      by simp
  qed
qed

lemma list_all_sort_insert [simp]:
  "list_all P (sort_insert cmp x ys) \<longleftrightarrow> P x \<and> list_all P ys"
  by (auto simp: list_all_iff)

lemma list_all_js_sort [simp]: "list_all P (js_sort cmp xs) \<longleftrightarrow> list_all P xs"
  by (simp add: list_all_iff)

lemma js_sort_Cons: "js_sort cmp (x # xs) = sort_insert cmp x (js_sort cmp xs)"
  by (simp add: js_sort_def)

lemma js_sort_Nil [simp]: "js_sort cmp [] = []"
  by (simp add: js_sort_def)

lemma sorted_js_sort:
  "list_all position_ok xs \<Longrightarrow> sorted_wrt position_le (js_sort by_position xs)"
  by (induction xs) (simp_all add: js_sort_Cons sorted_sort_insert)

lemma filter_sort_insert:
  assumes "\<And>y. y \<in> set ys \<Longrightarrow> js_gt0 (cmp x y) \<Longrightarrow> P x \<Longrightarrow> \<not> P y"
  shows "filter P (sort_insert cmp x ys) = filter P (x # ys)"
  using assms by (induction ys) auto

lemma js_eq_position_gt0:
  assumes "position_ok a" "position_ok b" "js_gt0 (by_position a b)"
    "js_eq (position (major_gantt a)) p"
  shows "\<not> js_eq (position (major_gantt b)) p"
proof
  assume "js_eq (position (major_gantt b)) p"
  with assms(4) have "position_le a b"
    unfolding js_eq_def position_le_def by (blast intro: js_le_trans)
  with assms(1-3) show False
    by (simp add: by_position_gt0)
qed

lemma filter_js_sort:
  assumes "list_all position_ok xs"
  shows "filter (\<lambda>m. js_eq (position (major_gantt m)) p) (js_sort by_position xs) =
    filter (\<lambda>m. js_eq (position (major_gantt m)) p) xs"
  using assms
proof (induction xs)
  case Nil
  then show ?case by simp
next
  case (Cons x xs)
  have "filter (\<lambda>m. js_eq (position (major_gantt m)) p)
        (sort_insert by_position x (js_sort by_position xs)) =
      filter (\<lambda>m. js_eq (position (major_gantt m)) p) (x # js_sort by_position xs)"
    using Cons.prems
    by (intro filter_sort_insert js_eq_position_gt0 [of x]) (auto simp: list_all_iff)
  with Cons show ?case
    by (simp add: js_sort_Cons)
qed

lemma sort_insert_sorted:
  assumes "position_ok x" "list_all position_ok ys" "\<forall>y\<in>set ys. position_le x y"
  shows "sort_insert by_position x ys = x # ys"
  using assms by (cases ys) (simp_all add: by_position_gt0)

lemma js_sort_sorted:
  "list_all position_ok xs \<Longrightarrow> sorted_wrt position_le xs \<Longrightarrow> js_sort by_position xs = xs"
  by (induction xs) (simp_all add: js_sort_Cons sort_insert_sorted)

lemma js_sort_idem:
  "list_all position_ok xs \<Longrightarrow>
     js_sort by_position (js_sort by_position xs) = js_sort by_position xs"
  by (simp add: js_sort_sorted sorted_js_sort)

lemma taskCategory_sorted:
  assumes "taskCategory v = Inr c" "taskCategoryIn v = Inr i"
  shows "category_tasks c = js_sort by_position (categoryIn_tasks i)"
  using assms unfolding taskCategory_eq by (auto simp: category_of_def split: if_splits)

lemma aggregated_position: "aggregated_major m \<Longrightarrow> position (major_gantt m) \<noteq> NaN"
  by (simp add: aggregated_major_def ok_tasks_def)

lemma totals_range_ok:
  assumes "list_all range_ok ts" "ok_estimates (totals_of ts)"
  shows "range_ok (totals_of ts)"
proof -
  have "list_all2 js_le (map lowerEstimate ts) (map higherEstimate ts)"
    using assms(1) by (induction ts) (simp_all add: range_ok_def)
  moreover have "js_le (Fin 0) (Fin 0)"
    by simp
  moreover have "sum_of (map lowerEstimate ts) \<noteq> NaN" "sum_of (map higherEstimate ts) \<noteq> NaN"
    using assms(2) by (simp_all add: totals_of_eq ok_estimates_def)
  ultimately show ?thesis
    unfolding range_ok_def totals_of_eq sum_of_def
    by (simp add: foldl_js_add_mono)
qed

lemma major_of_simps [simp]:
  "lowerEstimate (major_of i e) = lowerEstimate e"
  "higherEstimate (major_of i e) = higherEstimate e"
  "complexity (major_of i e) = complexity e"
  "confidence (major_of i e) = confidence e"
  "major_name (major_of i e) = majorIn_name i"
  "major_tasks (major_of i e) = majorIn_tasks i"
  "major_gantt (major_of i e) = majorIn_gantt i"
  by (simp_all add: major_of_def)

lemma category_of_simps [simp]:
  "lowerEstimate (category_of n ts e) = lowerEstimate e"
  "higherEstimate (category_of n ts e) = higherEstimate e"
  "complexity (category_of n ts e) = complexity e"
  "confidence (category_of n ts e) = confidence e"
  "category_name (category_of n ts e) = n"
  "category_tasks (category_of n ts e) = ts"
  by (simp_all add: category_of_def)

lemma list_of_simps [simp]:
  "lowerEstimate (list_of cs e) = lowerEstimate e"
  "higherEstimate (list_of cs e) = higherEstimate e"
  "complexity (list_of cs e) = complexity e"
  "confidence (list_of cs e) = confidence e"
  "list_estimates (list_of cs e) = cs"
  by (simp_all add: list_of_def)

lemma majorIn_simps [simp]:
  "majorIn_name (majorIn n p ts) = n"
  "majorIn_tasks (majorIn n p ts) = ts"
  "position (majorIn_gantt (majorIn n p ts)) = p"
  by (simp_all add: majorIn_def)

lemma minor_simps [simp]:
  "lowerEstimate (minor n lo hi cx cf) = lo"
  "higherEstimate (minor n lo hi cx cf) = hi"
  "complexity (minor n lo hi cx cf) = cx"
  "confidence (minor n lo hi cx cf) = cf"
  by (simp_all add: minor_def)

lemma majorTask_InrD:
  assumes "majorTask v = Inr m"
  obtains i where "majorTaskIn v = Inr i" "ok_estimates (totals_of (majorIn_tasks i))"
    "m = major_of i (totals_of (majorIn_tasks i))"
  using assms unfolding majorTask_eq bind_eq_Inr by (auto split: if_splits)

lemma taskCategory_InrD:
  assumes "taskCategory v = Inr c"
  obtains i where "taskCategoryIn v = Inr i" "ok_estimates (totals_of (categoryIn_tasks i))"
    "c = category_of (categoryIn_name i) (js_sort by_position (categoryIn_tasks i))
           (totals_of (categoryIn_tasks i))"
  using assms unfolding taskCategory_eq bind_eq_Inr by (auto split: if_splits)

lemma estimateList_InrD:
  assumes "estimateList v = Inr l"
  obtains i cs where "estimateSchema v = Inr i"
    "parse_all reaggregate (input_estimates i) = Inr cs"
    "ok_estimates (totals_of (input_estimates i))"
    "l = list_of cs (totals_of (input_estimates i))"
  using assms unfolding estimateList_eq bind_eq_Inr by (auto split: if_splits)

lemma reaggregate_InrD:
  assumes "reaggregate c = Inr c'"
  shows "ok_estimates (totals_of (category_tasks c))"
    and "c' = category_of (category_name c) (js_sort by_position (category_tasks c))
           (totals_of (category_tasks c))"
  using assms by (auto simp: reaggregate_def split: if_splits)

lemma taskCategory_first_pass:
  assumes "taskCategory v = Inr c"
  shows "first_pass c"
proof -
  from assms obtain i where i: "taskCategoryIn v = Inr i"
    and ok: "ok_estimates (totals_of (categoryIn_tasks i))"
    and c: "c = category_of (categoryIn_name i) (js_sort by_position (categoryIn_tasks i))
           (totals_of (categoryIn_tasks i))"
    by (rule taskCategory_InrD) blast
  from i have "list_all aggregated_major (categoryIn_tasks i)"
    by (rule taskCategoryIn_ok)
  with ok c show ?thesis
    unfolding first_pass_def by blast
qed

lemma estimateSchema_first_pass:
  assumes "estimateSchema v = Inr i"
  shows "list_all first_pass (input_estimates i)"
  using assms unfolding estimateSchema_def bind_eq_Inr field_eq_Inr z_array_eq_Inr
  by (auto elim!: list_all2_parsed intro: taskCategory_first_pass)

lemma list_all2_left:
  assumes "list_all2 R xs ys" "list_all Q ys" "\<And>x y. R x y \<Longrightarrow> Q y \<Longrightarrow> P x"
  shows "list_all P xs"
  using assms(1,2) by (induction rule: list_all2_induct) (auto intro: assms(3))

lemma list_all2_right:
  assumes "list_all2 R xs ys" "list_all Q xs" "\<And>x y. R x y \<Longrightarrow> Q x \<Longrightarrow> P y"
  shows "list_all P ys"
  using assms(1,2) by (induction rule: list_all2_induct) (auto intro: assms(3))

lemma range_ok_of [simp]:
  "range_ok (major_of i e) = range_ok e"
  "range_ok (category_of n ts e) = range_ok e"
  "range_ok (list_of cs e) = range_ok e"
  by (simp_all add: range_ok_def)

lemma majorTask_range:
  assumes "majorTask v = Inr m" "list_all range_ok (major_tasks m)"
  shows "range_ok m"
proof -
  from assms(1) obtain i where "ok_estimates (totals_of (majorIn_tasks i))"
    "m = major_of i (totals_of (majorIn_tasks i))"
    by (rule majorTask_InrD) blast
  with assms(2) show ?thesis
    by (simp add: totals_range_ok)
qed

lemma taskCategory_range:
  assumes "taskCategory v = Inr c" "list_all range_ok (category_tasks c)"
  shows "range_ok c"
proof -
  from assms(1) obtain i :: TaskCategoryIn
    where "ok_estimates (totals_of (categoryIn_tasks i))"
    "c = category_of (categoryIn_name i) (js_sort by_position (categoryIn_tasks i))
           (totals_of (categoryIn_tasks i))"
    by (rule taskCategory_InrD) blast
  with assms(2) show ?thesis
    by (simp add: totals_range_ok)
qed

lemma first_pass_range:
  assumes "first_pass c" "list_all range_ok (category_tasks c)"
  shows "range_ok c"
  using assms unfolding first_pass_def by (auto simp: totals_range_ok)

lemma reaggregate_range:
  assumes "reaggregate c = Inr c'" "list_all range_ok (category_tasks c')"
  shows "range_ok c'" "list_all range_ok (category_tasks c)"
  using reaggregate_InrD [OF assms(1)] assms(2) by (simp_all add: totals_range_ok)

lemma estimateList_range:
  assumes "estimateList v = Inr l"
    and "list_all (\<lambda>c. list_all range_ok (category_tasks c)) (list_estimates l)"
  shows "range_ok l \<and> list_all range_ok (list_estimates l)"
proof -
  from assms(1) obtain i cs where i: "estimateSchema v = Inr i"
    and cs: "parse_all reaggregate (input_estimates i) = Inr cs"
    and ok: "ok_estimates (totals_of (input_estimates i))"
    and l: "l = list_of cs (totals_of (input_estimates i))"
    by (rule estimateList_InrD) blast
  from cs have r: "list_all2 (\<lambda>c c'. reaggregate c = Inr c') (input_estimates i) cs"
    by (simp add: parse_all_eq_Inr)
  from assms(2) have a: "list_all (\<lambda>c. list_all range_ok (category_tasks c)) cs"
    by (simp add: l)
  have "list_all (\<lambda>c. list_all range_ok (category_tasks c)) (input_estimates i)"
    using r a by (rule list_all2_left) (rule reaggregate_range)
  with estimateSchema_first_pass [OF i] have "list_all range_ok (input_estimates i)"
    by (auto simp: list_all_iff intro: first_pass_range)
  then have "range_ok l"
    using ok by (simp add: l totals_range_ok)
  moreover have "list_all range_ok cs"
    using r a
  proof (induction rule: list_all2_induct)
    case Nil
    then show ?case by simp
  next
    case (Cons c cs c' cs')
    then show ?case
      by (auto intro: reaggregate_range(1))
  qed
  ultimately show ?thesis
    by (simp add: l)
qed

lemma second_pass_settled:
  assumes "first_pass c" "reaggregate c = Inr c'"
    and "list_all (\<lambda>m. is_js_number (position (major_gantt m))) (category_tasks c')"
  shows "settled c'"
proof -
  from assms(1) obtain n ts where ts: "list_all aggregated_major ts"
    and c: "c = category_of n (js_sort by_position ts) (totals_of ts)"
    unfolding first_pass_def by blast
  let ?s = "js_sort by_position ts"
  from reaggregate_InrD [OF assms(2)]
  have ok: "ok_estimates (totals_of ?s)"
    and c': "c' = category_of n (js_sort by_position ?s) (totals_of ?s)"
    by (simp_all add: c)
  from assms(3) ts have "list_all position_ok ts"
    by (auto simp: c' list_all_iff position_ok_def aggregated_position)
  then have idem: "js_sort by_position ?s = ?s"
    by (rule js_sort_idem)
  with ok ts show ?thesis
    by (simp add: settled_def c' reaggregate_def)
qed

lemma parse_all_settled: "list_all settled cs \<Longrightarrow> parse_all reaggregate cs = Inr cs"
  by (induction cs) (simp_all add: settled_def)

lemma estimateList_settled:
  assumes "list_all settled (list_estimates l)"
  shows "estimateList (val_of_EstimateList l) =
    (if ok_estimates (totals_of (list_estimates l))
     then Inr (list_of (list_estimates l) (totals_of (list_estimates l))) else Inl ZodError)"
proof -
  have "\<forall>c \<in> set (list_estimates l). list_all aggregated_major (category_tasks c)"
    using assms by (simp add: list_all_iff settled_def)
  then have "estimateSchema (val_of_EstimateList l) =
      bind (parse_all reaggregate (list_estimates l)) (\<lambda>cs. Inr \<lparr>input_estimates = cs\<rparr>)"
    by (rule estimateSchema_val)
  then show ?thesis
    by (simp add: estimateList_eq parse_all_settled [OF assms])
qed

lemma estimateList_output_settled:
  assumes "estimateList v = Inr l" "positions_ok l"
  shows "list_all settled (list_estimates l)"
proof -
  from assms(1) obtain i cs where i: "estimateSchema v = Inr i"
    and cs: "parse_all reaggregate (input_estimates i) = Inr cs"
    and l: "l = list_of cs (totals_of (input_estimates i))"
    by (rule estimateList_InrD) blast
  from cs have r: "list_all2 (\<lambda>c c'. reaggregate c = Inr c') (input_estimates i) cs"
    by (simp add: parse_all_eq_Inr)
  from assms(2) have p:
    "list_all (\<lambda>c. list_all (\<lambda>m. is_js_number (position (major_gantt m))) (category_tasks c)) cs"
    by (simp add: positions_ok_def l)
  from r estimateSchema_first_pass [OF i] p have "list_all settled cs"
  proof (induction rule: list_all2_induct)
    case Nil
    then show ?case by simp
  next
    case (Cons c cs c' cs')
    then show ?case
      by (auto intro: second_pass_settled)
  qed
  then show ?thesis
    by (simp add: l)
qed


lemma totals_c7: "totals_of c7_tasks = c7_totals"
  by (simp add: totals_of_eq c7_tasks_def c7_totals_def minor_def mean_of_def sum_of_def
      js_length_def js_div_Fin)

lemma majorTaskIn_c7: "majorTaskIn c7_major = Inr (majorIn ''m'' (Fin 1) c7_tasks)"
  unfolding c7_major_def
  by (rule majorTaskIn_raw) (simp_all add: minorTask_raw c7_tasks_def)

lemma majorTask_c7: "majorTask c7_major = Inr (major_of (majorIn ''m'' (Fin 1) c7_tasks) c7_totals)"
  by (simp add: majorTask_eq majorTaskIn_c7 majorIn_def totals_c7)
     (simp add: c7_totals_def ok_estimates_def)

lemma reaggregate_empty [simp]:
  "reaggregate (category_of n [] zero_totals) = Inr (category_of n [] zero_totals)"
  by (simp add: reaggregate_def category_of_def)

lemma taskCategory_empty: "taskCategory (raw_category n []) = Inr (category_of n [] zero_totals)"
  by (simp add: taskCategory_eq taskCategoryIn_raw)

lemma totals_c7_plan:
  "totals_of [category_of ''z'' [] zero_totals, category_of ''y'' [] zero_totals] = zero_totals"
  by (simp add: totals_of_eq category_of_def zero_totals_def mean_of_def sum_of_def js_length_def
      js_div_def is_zero_def is_inf_def signed_zero_def is_negative_def)

lemma estimateList_c7:
  "estimateList c7_plan =
     Inr (list_of [category_of ''z'' [] zero_totals, category_of ''y'' [] zero_totals] zero_totals)"
  by (simp add: estimateList_eq c7_plan_def estimateSchema_raw taskCategory_empty totals_c7_plan)

lemma erase_c8: "erase_plan c8_decorated = erase_plan c8_plain"
  by (simp add: c8_decorated_def c8_plain_def c7_category_def raw_plan_def raw_category_def
      c7_major_def raw_major_def with_estimates_def erase_plan_def erase_category_def
      erase_major_def without_estimates_def estimate_keys_def map_property_def map_elements_def)

lemma totals_c4_minor: "totals_of [minor ''t'' (Fin 1) (Fin 2) (Fin 3) (Fin 3)] = c4_totals"
  by (simp add: totals_of_eq c4_totals_def minor_def mean_of_def sum_of_def js_length_def
      js_div_Fin)

lemma majorTask_c4:
  "majorTask (raw_major n (Fin p) [raw_minor ''t'' (Fin 1) (Fin 2) (Fin 3) (Fin 3)]) =
     Inr (c4_major n p)"
proof -
  have "majorTaskIn (raw_major n (Fin p) [raw_minor ''t'' (Fin 1) (Fin 2) (Fin 3) (Fin 3)]) =
      Inr (majorIn n (Fin p) [minor ''t'' (Fin 1) (Fin 2) (Fin 3) (Fin 3)])"
    by (rule majorTaskIn_raw) (simp_all add: minorTask_raw)
  then show ?thesis
    by (simp add: majorTask_eq majorIn_def totals_c4_minor c4_major_def)
       (simp add: c4_totals_def ok_estimates_def)
qed

lemma taskCategoryIn_c4: "taskCategoryIn c4_category = Inr c4_input"
  unfolding c4_category_def c4_input_def
  by (rule taskCategoryIn_raw) (simp add: majorTask_c4)

lemma totals_c4: "totals_of (categoryIn_tasks c4_input) = c4_sum"
  by (simp add: totals_of_eq c4_input_def c4_major_def major_of_def c4_totals_def c4_sum_def
      mean_of_def sum_of_def js_length_def js_div_Fin)

lemma sort_c4:
  "js_sort by_position (categoryIn_tasks c4_input) =
     [c4_major ''first'' 1, c4_major ''second'' 2, c4_major ''third'' 3]"
  by (simp add: c4_input_def js_sort_def by_position_def c4_major_def major_of_def majorIn_def
      js_sub_def js_neg_def js_gt0_def)

lemma taskCategory_c4:
  "taskCategory c4_category =
     Inr (category_of ''c'' [c4_major ''first'' 1, c4_major ''second'' 2, c4_major ''third'' 3]
            c4_sum)"
  by (simp add: taskCategory_eq taskCategoryIn_c4 totals_c4 sort_c4)
     (simp add: c4_input_def c4_sum_def ok_estimates_def)

lemma majorTask_skew:
  assumes "fl lo = Fin lo" "fl hi = Fin hi"
  shows "majorTask (raw_skew_major n p lo hi) = Inr (skew_major n p lo hi)"
proof -
  have "majorTaskIn (raw_skew_major n p lo hi) =
      Inr (majorIn n (Fin p) [minor ''t'' (Fin lo) (Fin hi) (Fin 3) (Fin 3)])"
    unfolding raw_skew_major_def by (rule majorTaskIn_raw) (simp_all add: minorTask_raw)
  moreover have "totals_of [minor ''t'' (Fin lo) (Fin hi) (Fin 3) (Fin 3)] =
      \<lparr>lowerEstimate = Fin lo, higherEstimate = Fin hi, complexity = Fin 3, confidence = Fin 3\<rparr>"
    using assms by (simp add: totals_of_eq mean_of_def sum_of_def js_length_def js_div_Fin)
  ultimately show ?thesis
    by (simp add: majorTask_eq skew_major_def ok_estimates_def)
qed

lemma skew_major_simps [simp]:
  "lowerEstimate (skew_major n p lo hi) = Fin lo"
  "higherEstimate (skew_major n p lo hi) = Fin hi"
  "complexity (skew_major n p lo hi) = Fin 3"
  "confidence (skew_major n p lo hi) = Fin 3"
  "position (major_gantt (skew_major n p lo hi)) = Fin p"
  by (simp_all add: skew_major_def)

lemma taskCategoryIn_skew:
  "taskCategoryIn (raw_category ''c''
       [raw_skew_major ''y'' 3 1 9007199254740992,
        raw_skew_major ''z'' 2 1 1,
        raw_skew_major ''x'' 1 9007199254740992 1]) =
     Inr \<lparr>categoryIn_name = ''c'', categoryIn_tasks = skew_input\<rparr>"
  by (rule taskCategoryIn_raw) (simp add: majorTask_skew skew_input_def)

lemma totals_skew_input: "totals_of skew_input = skew_first"
  by (simp add: totals_of_eq skew_input_def skew_first_def mean_of_def sum_of_def js_length_def
      js_div_Fin)

lemma totals_skew_sorted: "totals_of skew_sorted = skew_second"
  by (simp add: totals_of_eq skew_sorted_def skew_second_def mean_of_def sum_of_def js_length_def
      js_div_Fin)

lemma sort_skew_input: "js_sort by_position skew_input = skew_sorted"
  by (simp add: skew_input_def skew_sorted_def js_sort_def by_position_def js_sub_def js_neg_def
      js_gt0_def)

lemma sort_skew_sorted: "js_sort by_position skew_sorted = skew_sorted"
  by (simp add: skew_sorted_def js_sort_def by_position_def js_sub_def js_neg_def js_gt0_def)

lemma ok_skew [simp]: "ok_estimates skew_first" "ok_estimates skew_second"
  by (simp_all add: ok_estimates_def skew_first_def skew_second_def)

lemma taskCategory_skew:
  "taskCategory (raw_category ''c''
       [raw_skew_major ''y'' 3 1 9007199254740992,
        raw_skew_major ''z'' 2 1 1,
        raw_skew_major ''x'' 1 9007199254740992 1]) =
     Inr (category_of ''c'' skew_sorted skew_first)"
  by (simp add: taskCategory_eq taskCategoryIn_skew totals_skew_input sort_skew_input)

lemma reaggregate_skew_first:
  "reaggregate (category_of ''c'' skew_sorted skew_first) =
     Inr (category_of ''c'' skew_sorted skew_second)"
  by (simp add: reaggregate_def totals_skew_sorted sort_skew_sorted)

lemma reaggregate_skew_second:
  "reaggregate (category_of ''c'' skew_sorted skew_second) =
     Inr (category_of ''c'' skew_sorted skew_second)"
  by (simp add: reaggregate_def totals_skew_sorted sort_skew_sorted)

lemma totals_skew_categories:
  "totals_of [category_of ''c'' skew_sorted skew_first] = skew_first"
  "totals_of [category_of ''c'' skew_sorted skew_second] = skew_second"
  by (simp_all add: totals_of_eq skew_first_def skew_second_def mean_of_def sum_of_def
      js_length_def js_div_Fin)

lemma estimateList_skew: "estimateList skew_plan = Inr skew_result"
  unfolding skew_plan_def
  by (simp add: estimateList_eq estimateSchema_raw taskCategory_skew reaggregate_skew_first
      totals_skew_categories skew_result_def)

lemma ok_c7_totals [simp]: "ok_estimates c7_totals"
  by (simp add: c7_totals_def ok_estimates_def)

lemma majorTask_c7_parsed: "majorTask c7_major = Inr c7_parsed_major"
  by (simp add: majorTask_c7 c7_parsed_major_def)

lemma totals_c7_major: "totals_of [c7_parsed_major] = c7_totals"
  by (simp add: totals_of_eq c7_parsed_major_def c7_totals_def mean_of_def sum_of_def
      js_length_def js_div_Fin)

lemma taskCategory_c7: "taskCategory c7_category = Inr c7_parsed_category"
proof -
  have "taskCategoryIn c7_category =
      Inr \<lparr>categoryIn_name = ''c'', categoryIn_tasks = [c7_parsed_major]\<rparr>"
    unfolding c7_category_def by (rule taskCategoryIn_raw) (simp add: majorTask_c7_parsed)
  then show ?thesis
    by (simp add: taskCategory_eq totals_c7_major c7_parsed_category_def js_sort_def)
qed

lemma reaggregate_c7: "reaggregate c7_parsed_category = Inr c7_parsed_category"
  by (simp add: reaggregate_def c7_parsed_category_def totals_c7_major js_sort_def)

lemma totals_c7_category: "totals_of [c7_parsed_category] = c7_totals"
  by (simp add: totals_of_eq c7_parsed_category_def c7_totals_def mean_of_def sum_of_def
      js_length_def js_div_Fin)

lemma estimateList_c8_plain: "estimateList c8_plain = Inr c7_parsed_plan"
  unfolding c8_plain_def
  by (simp add: estimateList_eq estimateSchema_raw taskCategory_c7 reaggregate_c7
      totals_c7_category c7_parsed_plan_def)

lemma settled_skew: "settled (category_of ''c'' skew_sorted skew_second)"
proof -
  have "aggregated_major (skew_major n p lo hi)" if "fl lo = Fin lo" "fl hi = Fin hi" for n p lo hi
    using majorTask_skew [OF that] by (rule majorTask_aggregated)
  then have "list_all aggregated_major skew_sorted"
    by (simp add: skew_sorted_def)
  then show ?thesis
    by (simp add: settled_def reaggregate_skew_second)
qed

lemma rerun_skew: "estimateList (val_of_EstimateList skew_result) = Inr skew_rerun"
  using settled_skew
  by (simp add: estimateList_settled skew_result_def totals_skew_categories skew_rerun_def)

section \<open>Sums and means of small integers\<close>

lemma is_integer_cases:
  assumes "is_integer x"
  obtains "x = NZero" | j where "x = Fin (of_int j)"
  using assms by (cases x) (auto simp: is_integer_def)

lemma is_integer_simps [simp]:
  "is_integer (Fin (of_int j))" "is_integer NZero" "\<not> is_integer NaN"
  by (simp_all add: is_integer_def)

lemma num_val_simps [simp]: "num_val (Fin a) = a" "num_val NZero = 0"
  by (simp_all add: num_val_def)

lemma total_abs_simps [simp]:
  "total_abs [] = 0" "total_abs (x # xs) = \<bar>num_val x\<bar> + total_abs xs"
  "total_abs (xs @ ys) = total_abs xs + total_abs ys"
  by (simp_all add: total_abs_def)

lemma total_abs_nonneg [simp]: "0 \<le> total_abs xs"
  by (induction xs) simp_all

lemma int_le_2p53:
  assumes "\<bar>of_int k :: rat\<bar> \<le> 2 ^ 53"
  shows "\<bar>k\<bar> \<le> 2 ^ 53"
proof -
  have "(of_int \<bar>k\<bar> :: rat) \<le> of_int (2 ^ 53)"
    using assms by simp
  then show ?thesis
    by (simp only: of_int_le_iff)
qed

lemma foldl_add_small:
  assumes "list_all is_integer xs" "\<bar>of_int k\<bar> + total_abs xs \<le> 2 ^ 53"
  shows "foldl js_add (Fin (of_int k)) xs = Fin (of_int k + sum_list (map num_val xs))"
  using assms
proof (induction xs arbitrary: k)
  case Nil
  then show ?case by simp
next
  case (Cons x xs)
  from Cons.prems(1) have x: "is_integer x" and xs: "list_all is_integer xs"
    by simp_all
  have nn: "0 \<le> total_abs xs" "0 \<le> \<bar>num_val x\<bar>"
    by simp_all
  from x show ?case
  proof (cases rule: is_integer_cases)
    case 1
    have "\<bar>of_int k :: rat\<bar> \<le> 2 ^ 53"
      using Cons.prems(2) nn unfolding total_abs_simps by linarith
    then have "fl (of_int k) = Fin (of_int k)"
      by (intro fl_int int_le_2p53)
    moreover have "\<bar>of_int k\<bar> + total_abs xs \<le> 2 ^ 53"
      using Cons.prems(2) by (simp add: 1)
    ultimately show ?thesis
      using Cons.IH [OF xs, of k] by (simp add: 1)
  next
    case (2 j)
    have "\<bar>of_int (k + j) :: rat\<bar> \<le> \<bar>of_int k\<bar> + \<bar>of_int j\<bar>"
      by simp
    also have "\<dots> \<le> 2 ^ 53"
      using Cons.prems(2) nn(1) unfolding total_abs_simps 2 num_val_simps by linarith
    finally have b: "\<bar>of_int (k + j) :: rat\<bar> \<le> 2 ^ 53" .
    then have "fl (of_int (k + j)) = Fin (of_int (k + j))"
      by (intro fl_int int_le_2p53)
    moreover have "\<bar>of_int (k + j)\<bar> + total_abs xs \<le> 2 ^ 53"
    proof -
      have "\<bar>of_int (k + j) :: rat\<bar> + total_abs xs \<le> \<bar>of_int k\<bar> + (\<bar>of_int j\<bar> + total_abs xs)"
        by simp
      also have "\<dots> \<le> 2 ^ 53"
        using Cons.prems(2) by (simp add: 2)
      finally show ?thesis .
    qed
    ultimately show ?thesis
      using Cons.IH [OF xs, of "k + j"] by (simp add: 2 add.assoc)
  qed
qed

lemma sum_of_small:
  assumes "small_integers xs"
  shows "sum_of xs = Fin (sum_list (map num_val xs))"
  using assms foldl_add_small [of xs 0] by (simp add: small_integers_def sum_of_def)

lemma sum_list_integer:
  "list_all is_integer xs \<Longrightarrow> \<exists>j. sum_list (map num_val xs) = of_int j"
proof (induction xs)
  case Nil
  show ?case
    by (auto intro: exI [of _ 0])
next
  case (Cons x xs)
  then obtain j where j: "sum_list (map num_val xs) = of_int j"
    by auto
  from Cons.prems have "is_integer x"
    by simp
  then show ?case
  proof (cases rule: is_integer_cases)
    case 1
    with j show ?thesis
      by auto
  next
    case (2 i)
    with j have "sum_list (map num_val (x # xs)) = of_int (i + j)"
      by simp
    then show ?thesis ..
  qed
qed

lemma abs_sum_list_le: "\<bar>sum_list (map num_val xs)\<bar> \<le> total_abs xs"
proof (induction xs)
  case Nil
  then show ?case by simp
next
  case (Cons x xs)
  have "\<bar>num_val x + sum_list (map num_val xs)\<bar> \<le> \<bar>num_val x\<bar> + \<bar>sum_list (map num_val xs)\<bar>"
    by (rule abs_triangle_ineq)
  with Cons show ?case
    by simp
qed

lemma sum_of_small_integer:
  assumes "small_integers xs"
  shows "is_integer (sum_of xs)" and "\<bar>num_val (sum_of xs)\<bar> \<le> total_abs xs"
proof -
  from assms obtain j where "sum_list (map num_val xs) = of_int j"
    using sum_list_integer by (auto simp: small_integers_def)
  then show "is_integer (sum_of xs)"
    by (simp add: sum_of_small [OF assms])
  show "\<bar>num_val (sum_of xs)\<bar> \<le> total_abs xs"
    by (simp add: sum_of_small [OF assms] abs_sum_list_le)
qed

lemma sum_list_sort_insert:
  fixes g :: "'a \<Rightarrow> rat"
  shows "sum_list (map g (sort_insert cmp x ys)) = g x + sum_list (map g ys)"
  by (induction ys) simp_all

lemma sum_list_js_sort:
  fixes g :: "'a \<Rightarrow> rat"
  shows "sum_list (map g (js_sort cmp xs)) = sum_list (map g xs)"
  by (induction xs) (simp_all add: js_sort_Cons sum_list_sort_insert)

lemma small_integers_js_sort:
  "small_integers (map g (js_sort cmp xs)) = small_integers (map g xs)"
  by (simp add: small_integers_def total_abs_def list_all_iff o_def sum_list_js_sort)

lemma exact_sum_js_sort:
  "exact_sum s (map g (js_sort cmp xs)) = exact_sum s (map g xs)"
  by (simp add: exact_sum_def o_def sum_list_js_sort)

lemma small_integers_append:
  "small_integers (xs @ ys) \<Longrightarrow> small_integers xs \<and> small_integers ys"
proof -
  assume a: "small_integers (xs @ ys)"
  have "0 \<le> total_abs xs" "0 \<le> total_abs ys"
    by simp_all
  with a show ?thesis
    unfolding small_integers_def total_abs_simps by (simp, linarith)
qed

lemma truncate_of [simp]:
  "Estimates.truncate (major_of i e) = e"
  "Estimates.truncate (category_of n ts e) = e"
  "Estimates.truncate (list_of cs e) = e"
  by (simp_all add: Estimates.truncate_def major_of_def category_of_def list_of_def)

lemma total_abs_concat:
  "total_abs (map f (concat (map g xs))) = sum_list (map (\<lambda>x. total_abs (map f (g x))) xs)"
  by (induction xs) simp_all

lemma small_integers_concat_sort:
  "small_integers (map f (concat (map g (js_sort cmp xs)))) =
     small_integers (map f (concat (map g xs)))"
  by (simp add: small_integers_def total_abs_concat sum_list_js_sort list_all_iff)

lemma length_sort_insert [simp]: "length (sort_insert cmp x ys) = Suc (length ys)"
  by (induction ys) simp_all

lemma length_js_sort [simp]: "length (js_sort cmp xs) = length xs"
  by (induction xs) (simp_all add: js_sort_Cons)

text \<open>
  The three levels at once, for an aggregation \<open>agg\<close> of the numbers of the children
  (the sum or the rounded mean) that meets its specification \<open>S\<close> on small integers,
  when the number of children satisfies \<open>ok\<close>.
\<close>

lemma aggregate_tree:
  fixes agg :: "jsnum list \<Rightarrow> jsnum" and S :: "jsnum \<Rightarrow> jsnum list \<Rightarrow> bool"
    and ok :: "nat \<Rightarrow> bool"
    and fE :: "Estimates \<Rightarrow> jsnum" and fm :: "MinorTask \<Rightarrow> jsnum"
    and fM :: "MajorTask \<Rightarrow> jsnum" and fC :: "TaskCategory \<Rightarrow> jsnum"
    and fL :: "EstimateList \<Rightarrow> jsnum"
  assumes agg: "\<And>xs. small_integers xs \<Longrightarrow> ok (length xs) \<Longrightarrow>
        S (agg xs) xs \<and> is_integer (agg xs) \<and> \<bar>num_val (agg xs)\<bar> \<le> total_abs xs"
    and uniq: "\<And>a b xs. S a xs \<Longrightarrow> S b xs \<Longrightarrow> a = b"
    and perm: "\<And>a (g :: MajorTask \<Rightarrow> jsnum) ts.
        S a (map g (js_sort by_position ts)) = S a (map g ts)"
    and tm: "\<And>ts :: MinorTask list. fE (totals_of ts) = agg (map fm ts)"
    and tM: "\<And>ts :: MajorTask list. fE (totals_of ts) = agg (map fM ts)"
    and tC: "\<And>ts :: TaskCategory list. fE (totals_of ts) = agg (map fC ts)"
    and eM: "\<And>m. fM m = fE (Estimates.truncate m)"
    and eC: "\<And>c. fC c = fE (Estimates.truncate c)"
    and eL: "\<And>l. fL l = fE (Estimates.truncate l)"
    and run: "estimateList v = Inr l"
    and small: "small_integers (map fm (all_minors l))"
    and count: "ok (length (list_estimates l))"
    and counts: "list_all (\<lambda>c. ok (length (category_tasks c))
        \<and> list_all (\<lambda>m. ok (length (major_tasks m))) (category_tasks c)) (list_estimates l)"
  shows "S (fL l) (map fC (list_estimates l))
     \<and> list_all (\<lambda>c. S (fC c) (map fM (category_tasks c))
           \<and> list_all (\<lambda>m. S (fM m) (map fm (major_tasks m))) (category_tasks c))
         (list_estimates l)"
proof -
  have major: "fM m = agg (map fm (major_tasks m))" if "aggregated_major m" for m
    using that by (simp add: aggregated_major_def eM tm)
  have majors: "small_integers (map fM ts)
      \<and> total_abs (map fM ts) \<le> total_abs (map fm (concat (map major_tasks ts)))
      \<and> list_all (\<lambda>m. S (fM m) (map fm (major_tasks m))) ts"
    if "list_all aggregated_major ts" "small_integers (map fm (concat (map major_tasks ts)))"
      "list_all (\<lambda>m. ok (length (major_tasks m))) ts"
    for ts
    using that
  proof (induction ts)
    case Nil
    then show ?case
      by (simp add: small_integers_def)
  next
    case (Cons m ts)
    from Cons.prems(2) have sm: "small_integers (map fm (major_tasks m))"
      and sts: "small_integers (map fm (concat (map major_tasks ts)))"
      using small_integers_append [of "map fm (major_tasks m)"] by simp_all
    from Cons.prems(1) have fm: "fM m = agg (map fm (major_tasks m))"
      by (simp add: major)
    from Cons.prems(3) have okm: "ok (length (map fm (major_tasks m)))"
      by simp
    from Cons.prems(1,3) Cons.IH [OF _ sts] have ih1: "small_integers (map fM ts)"
      and ih2: "total_abs (map fM ts) \<le> total_abs (map fm (concat (map major_tasks ts)))"
      and ih3: "list_all (\<lambda>m. S (fM m) (map fm (major_tasks m))) ts"
      by simp_all
    from agg [OF sm okm] have e: "S (fM m) (map fm (major_tasks m))"
      and i: "is_integer (fM m)"
      and b: "\<bar>num_val (fM m)\<bar> \<le> total_abs (map fm (major_tasks m))"
      by (simp_all add: fm)
    have le: "total_abs (map fM (m # ts)) \<le> total_abs (map fm (concat (map major_tasks (m # ts))))"
      using b ih2 by simp
    moreover have "total_abs (map fm (concat (map major_tasks (m # ts)))) \<le> 2 ^ 53"
      using Cons.prems(2) by (simp add: small_integers_def)
    ultimately have "total_abs (map fM (m # ts)) \<le> 2 ^ 53"
      by (rule order_trans)
    with i ih1 have "small_integers (map fM (m # ts))"
      by (simp add: small_integers_def)
    with le e ih3 show ?case
      by simp
  qed
  have category: "fC c = fC c'
      \<and> S (fC c') (map fM (category_tasks c'))
      \<and> list_all (\<lambda>m. S (fM m) (map fm (major_tasks m))) (category_tasks c')
      \<and> is_integer (fC c')
      \<and> \<bar>num_val (fC c')\<bar> \<le> total_abs (map fm (category_minors c'))"
    if "first_pass c" "reaggregate c = Inr c'" "small_integers (map fm (category_minors c'))"
      "ok (length (category_tasks c'))"
      "list_all (\<lambda>m. ok (length (major_tasks m))) (category_tasks c')"
    for c c'
  proof -
    from that(1) obtain n ts where ts: "list_all aggregated_major ts"
      and c: "c = category_of n (js_sort by_position ts) (totals_of ts)"
      unfolding first_pass_def by blast
    let ?s = "js_sort by_position ts"
    from reaggregate_InrD(2) [OF that(2)]
    have c': "c' = category_of n (js_sort by_position ?s) (totals_of ?s)"
      by (simp add: c)
    have s2: "small_integers (map fm (concat (map major_tasks (js_sort by_position ?s))))"
      using that(3) by (simp add: c' category_minors_def)
    then have s1: "small_integers (map fm (concat (map major_tasks ?s)))"
      by (simp only: small_integers_concat_sort)
    then have s0: "small_integers (map fm (concat (map major_tasks ts)))"
      by (simp only: small_integers_concat_sort)
    from ts have a1: "list_all aggregated_major ?s"
      and a2: "list_all aggregated_major (js_sort by_position ?s)"
      by simp_all
    from that(5) have k0: "list_all (\<lambda>m. ok (length (major_tasks m))) ts"
      and k1: "list_all (\<lambda>m. ok (length (major_tasks m))) ?s"
      and k2: "list_all (\<lambda>m. ok (length (major_tasks m))) (js_sort by_position ?s)"
      by (simp_all add: c')
    from that(4) have n0: "ok (length (map fM ts))" and n1: "ok (length (map fM ?s))"
      by (simp_all add: c')
    note m0 = majors [OF ts s0 k0] and m1 = majors [OF a1 s1 k1] and m2 = majors [OF a2 s2 k2]
    from m0 have sm0: "small_integers (map fM ts)"
      by simp
    from m1 have sm1: "small_integers (map fM ?s)"
      by simp
    have fc: "fC c = agg (map fM ts)" and fc': "fC c' = agg (map fM ?s)"
      by (simp_all add: c c' eC tM)
    from agg [OF sm0 n0] have v0: "S (fC c) (map fM ts)"
      by (simp add: fc)
    from agg [OF sm1 n1] have v1: "S (fC c') (map fM ?s)"
      and i1: "is_integer (fC c')" and b1: "\<bar>num_val (fC c')\<bar> \<le> total_abs (map fM ?s)"
      by (simp_all add: fc')
    from v1 have "S (fC c') (map fM ts)"
      by (simp only: perm)
    with v0 have "fC c = fC c'"
      by (rule uniq)
    moreover from v1 have "S (fC c') (map fM (category_tasks c'))"
      by (simp add: c' perm)
    moreover have "list_all (\<lambda>m. S (fM m) (map fm (major_tasks m))) (category_tasks c')"
      using m2 by (simp add: c')
    moreover note i1
    moreover have "\<bar>num_val (fC c')\<bar> \<le> total_abs (map fm (category_minors c'))"
      using b1 m1 by (simp add: c' category_minors_def total_abs_concat sum_list_js_sort)
    ultimately show ?thesis
      by simp
  qed
  from run obtain i cs where i: "estimateSchema v = Inr i"
    and cs: "parse_all reaggregate (input_estimates i) = Inr cs"
    and l: "l = list_of cs (totals_of (input_estimates i))"
    by (rule estimateList_InrD) blast
  from cs have r: "list_all2 (\<lambda>c c'. reaggregate c = Inr c') (input_estimates i) cs"
    by (simp add: parse_all_eq_Inr)
  from small have sm: "small_integers (map fm (concat (map category_minors cs)))"
    by (simp add: all_minors_def l)
  from counts have ks: "list_all (\<lambda>c. ok (length (category_tasks c))
        \<and> list_all (\<lambda>m. ok (length (major_tasks m))) (category_tasks c)) cs"
    by (simp add: l)
  from r estimateSchema_first_pass [OF i] sm ks
  have plan: "map fC (input_estimates i) = map fC cs
      \<and> small_integers (map fC cs)
      \<and> total_abs (map fC cs) \<le> total_abs (map fm (concat (map category_minors cs)))
      \<and> list_all (\<lambda>c. S (fC c) (map fM (category_tasks c))
           \<and> list_all (\<lambda>m. S (fM m) (map fm (major_tasks m))) (category_tasks c)) cs"
  proof (induction rule: list_all2_induct)
    case Nil
    then show ?case
      by (simp add: small_integers_def)
  next
    case (Cons c cs c' cs')
    from Cons.prems(2) have sc: "small_integers (map fm (category_minors c'))"
      and scs: "small_integers (map fm (concat (map category_minors cs')))"
      using small_integers_append [of "map fm (category_minors c')"] by simp_all
    from Cons.prems(1) have fp: "first_pass c" and fps: "list_all first_pass cs"
      by simp_all
    from Cons.prems(3) have k: "ok (length (category_tasks c'))"
      "list_all (\<lambda>m. ok (length (major_tasks m))) (category_tasks c')"
      and ks: "list_all (\<lambda>c. ok (length (category_tasks c))
        \<and> list_all (\<lambda>m. ok (length (major_tasks m))) (category_tasks c)) cs'"
      by simp_all
    note cat = category [OF fp Cons.hyps(1) sc k] and ih = Cons.IH [OF fps scs ks]
    have le: "total_abs (map fC (c' # cs')) \<le>
        total_abs (map fm (concat (map category_minors (c' # cs'))))"
      using cat ih by simp
    moreover have "total_abs (map fm (concat (map category_minors (c' # cs')))) \<le> 2 ^ 53"
      using Cons.prems(2) by (simp add: small_integers_def)
    ultimately have "total_abs (map fC (c' # cs')) \<le> 2 ^ 53"
      by (rule order_trans)
    with cat ih have "small_integers (map fC (c' # cs'))"
      by (simp add: small_integers_def)
    with le cat ih show ?case
      by simp
  qed
  from plan have sp: "small_integers (map fC cs)"
    by simp
  from count have "ok (length (map fC cs))"
    by (simp add: l)
  from agg [OF sp this] have "S (agg (map fC cs)) (map fC cs)"
    by simp
  moreover have "fL l = agg (map fC cs)"
    using plan by (simp add: l eL tC)
  ultimately have "S (fL l) (map fC (list_estimates l))"
    by (simp add: l)
  with plan show ?thesis
    by (simp add: l)
qed

lemma exact_sum_unique: "exact_sum a xs \<Longrightarrow> exact_sum b xs \<Longrightarrow> a = b"
  by (simp add: exact_sum_def)

lemma sum_of_exact:
  assumes "small_integers xs"
  shows "exact_sum (sum_of xs) xs \<and> is_integer (sum_of xs)
    \<and> \<bar>num_val (sum_of xs)\<bar> \<le> total_abs xs"
  using sum_of_small [OF assms] sum_of_small_integer [OF assms]
  by (simp add: exact_sum_def)

lemma totals_of_fields:
  "lowerEstimate (totals_of ts) = sum_of (map lowerEstimate ts)"
  "higherEstimate (totals_of ts) = sum_of (map higherEstimate ts)"
  "complexity (totals_of ts) = mean_of (map complexity ts)"
  "confidence (totals_of ts) = mean_of (map confidence ts)"
  by (simp_all add: totals_of_eq)

lemma truncate_fields [simp]:
  "lowerEstimate (Estimates.truncate e) = lowerEstimate e"
  "higherEstimate (Estimates.truncate e) = higherEstimate e"
  "complexity (Estimates.truncate e) = complexity e"
  "confidence (Estimates.truncate e) = confidence e"
  by (simp_all add: Estimates.truncate_def)

lemma power_of_twoD:
  assumes "power_of_two n"
  obtains k where "n = 2 ^ k" "k \<le> 1074"
proof -
  from assms obtain k where "n = 2 ^ k" "k < 32"
    unfolding power_of_two_def by auto
  then show ?thesis
    by (intro that [of k]) simp_all
qed

lemma js_div_small:
  assumes "is_integer x" "\<bar>num_val x\<bar> \<le> 2 ^ 53" "k \<le> 1074"
  shows "js_div x (Fin (2 ^ k)) = NZero \<and> x = NZero
    \<or> js_div x (Fin (2 ^ k)) = Fin (num_val x / 2 ^ k)"
  using assms(1)
proof (cases rule: is_integer_cases)
  case 1
  then show ?thesis
    by (simp add: js_div_def is_zero_def is_inf_def is_negative_def signed_zero_def)
next
  case (2 j)
  show ?thesis
  proof (cases "j = 0")
    case True
    then show ?thesis
      by (simp add: 2 js_div_def is_zero_def is_inf_def is_negative_def signed_zero_def)
  next
    case False
    from assms(2) have "\<bar>j\<bar> \<le> 2 ^ 53"
      by (intro int_le_2p53) (simp add: 2)
    then have "fl (of_int j / 2 ^ k) = Fin (of_int j / 2 ^ k)"
      using assms(3) by (rule fl_dyadic)
    with False show ?thesis
      by (simp add: 2 js_div_Fin)
  qed
qed

lemma foldl_mean_small:
  assumes "list_all is_integer xs" "\<bar>of_int a\<bar> + total_abs xs \<le> 2 ^ 53" "k \<le> 1074"
  shows "foldl (\<lambda>acc x. js_add acc (js_div x (Fin (2 ^ k)))) (Fin (of_int a / 2 ^ k)) xs =
    Fin ((of_int a + sum_list (map num_val xs)) / 2 ^ k)"
  using assms(1,2)
proof (induction xs arbitrary: a)
  case Nil
  then show ?case by simp
next
  case (Cons x xs)
  from Cons.prems(1) have x: "is_integer x" and xs: "list_all is_integer xs"
    by simp_all
  have nn: "0 \<le> total_abs xs"
    by simp
  have ba: "\<bar>of_int a :: rat\<bar> \<le> 2 ^ 53" and bx: "\<bar>num_val x\<bar> \<le> 2 ^ 53"
    using Cons.prems(2) nn unfolding total_abs_simps by linarith+
  obtain j where j: "num_val x = of_int j"
    using x by (cases rule: is_integer_cases) (auto intro: that [of 0])
  have bs: "\<bar>of_int (a + j) :: rat\<bar> + total_abs xs \<le> 2 ^ 53"
  proof -
    have "\<bar>of_int (a + j) :: rat\<bar> \<le> \<bar>of_int a\<bar> + \<bar>num_val x\<bar>"
      by (simp add: j)
    with Cons.prems(2) show ?thesis
      unfolding total_abs_simps by linarith
  qed
  then have "\<bar>of_int (a + j) :: rat\<bar> \<le> 2 ^ 53"
    using nn by linarith
  then have fs: "fl (of_int (a + j) / 2 ^ k) = Fin (of_int (a + j) / 2 ^ k)"
    using assms(3) by (intro fl_dyadic int_le_2p53)
  have fa: "fl (of_int a / 2 ^ k) = Fin (of_int a / 2 ^ k)"
    using ba assms(3) by (intro fl_dyadic int_le_2p53)
  have step: "js_add (Fin (of_int a / 2 ^ k)) (js_div x (Fin (2 ^ k))) =
      Fin (of_int (a + j) / 2 ^ k)"
    using js_div_small [OF x bx assms(3)]
  proof
    assume "js_div x (Fin (2 ^ k)) = NZero \<and> x = NZero"
    then have d: "js_div x (Fin (2 ^ k)) = NZero" and x0: "x = NZero"
      by blast+
    from x0 j have "j = 0"
      by simp
    then show ?thesis
      unfolding d by (simp add: fa)
  next
    assume "js_div x (Fin (2 ^ k)) = Fin (num_val x / 2 ^ k)"
    with fs show ?thesis
      by (simp add: j add_divide_distrib)
  qed
  show ?case
    using Cons.IH [OF xs bs] by (simp add: step j add.assoc)
qed

lemma mean_of_small:
  assumes "small_integers xs" "length xs = 2 ^ k" "k \<le> 1074"
  shows "mean_of xs = Math_round (Fin (sum_list (map num_val xs) / 2 ^ k))"
proof -
  have "js_length xs = Fin (2 ^ k)"
    by (simp add: js_length_def assms(2))
  then show ?thesis
    using assms(1) foldl_mean_small [of xs 0 k] assms(3)
    by (simp add: mean_of_def small_integers_def)
qed

lemma Math_round_integer [simp]: "is_integer (Math_round (Fin a))"
  by (simp add: Math_round_def Let_def)

lemma Math_round_bound:
  assumes "\<bar>a\<bar> \<le> of_int w"
  shows "\<bar>num_val (Math_round (Fin a))\<bar> \<le> of_int w"
proof -
  have w: "0 \<le> w"
    using assms by (smt (verit) abs_ge_zero of_int_0_le_iff order_trans)
  have "a + 1 / 2 < of_int (w + 1)"
    using assms by simp
  then have "\<lfloor>a + 1 / 2\<rfloor> < w + 1"
    by (simp only: floor_less_iff)
  then have up: "\<lfloor>a + 1 / 2\<rfloor> \<le> w"
    by simp
  have "of_int (- w) \<le> a + 1 / 2"
    using assms by simp
  then have lo: "- w \<le> \<lfloor>a + 1 / 2\<rfloor>"
    by (simp only: le_floor_iff)
  from up lo have "\<bar>\<lfloor>a + 1 / 2\<rfloor>\<bar> \<le> w"
    by simp
  then have "\<bar>of_int \<lfloor>a + 1 / 2\<rfloor> :: rat\<bar> \<le> of_int w"
    by (simp only: of_int_abs [symmetric] of_int_le_iff)
  with w show ?thesis
    by (simp add: Math_round_def Let_def)
qed

lemma total_abs_integer: "list_all is_integer xs \<Longrightarrow> \<exists>w. total_abs xs = of_int w"
proof (induction xs)
  case Nil
  show ?case
    by (auto intro: exI [of _ 0])
next
  case (Cons x xs)
  then obtain w where w: "total_abs xs = of_int w"
    by auto
  from Cons.prems have "is_integer x"
    by simp
  then obtain j where "num_val x = of_int j"
    by (cases rule: is_integer_cases) (auto intro: that [of 0])
  with w have "total_abs (x # xs) = of_int (\<bar>j\<bar> + w)"
    by simp
  then show ?case ..
qed

lemma mean_of_rounded:
  assumes "small_integers xs" "power_of_two (length xs)"
  shows "rounded_mean (mean_of xs) xs \<and> is_integer (mean_of xs)
    \<and> \<bar>num_val (mean_of xs)\<bar> \<le> total_abs xs"
proof -
  from assms(2) obtain k where k: "length xs = 2 ^ k" "k \<le> 1074"
    by (rule power_of_twoD)
  let ?s = "sum_list (map num_val xs)"
  have m: "mean_of xs = Math_round (Fin (?s / 2 ^ k))"
    using assms(1) k by (rule mean_of_small)
  obtain w where w: "total_abs xs = of_int w"
    using assms(1) total_abs_integer by (auto simp: small_integers_def)
  have "\<bar>?s / 2 ^ k\<bar> = \<bar>?s\<bar> / 2 ^ k"
    by simp
  also have "\<dots> \<le> \<bar>?s\<bar>"
    by (simp add: divide_le_eq_1 mult_le_cancel_left1 field_simps)
  also have "\<dots> \<le> of_int w"
    using abs_sum_list_le [of xs] by (simp add: w)
  finally have "\<bar>num_val (Math_round (Fin (?s / 2 ^ k)))\<bar> \<le> of_int w"
    by (rule Math_round_bound)
  then show ?thesis
    by (simp add: m rounded_mean_def k w)
qed

lemma rounded_mean_unique: "rounded_mean a xs \<Longrightarrow> rounded_mean b xs \<Longrightarrow> a = b"
  by (simp add: rounded_mean_def)

lemma rounded_mean_js_sort:
  "rounded_mean a (map g (js_sort cmp xs)) = rounded_mean a (map g xs)"
  by (simp add: rounded_mean_def o_def sum_list_js_sort)

lemma estimateList_rounded_means:
  assumes "estimateList v = Inr l" "power_of_two_counts l"
    and "small_integers (map complexity (all_minors l))"
    and "small_integers (map confidence (all_minors l))"
  shows "rounded_mean (complexity l) (map complexity (list_estimates l))
     \<and> rounded_mean (confidence l) (map confidence (list_estimates l))
     \<and> list_all (\<lambda>c. rounded_mean (complexity c) (map complexity (category_tasks c))
           \<and> rounded_mean (confidence c) (map confidence (category_tasks c))
           \<and> list_all (\<lambda>m. rounded_mean (complexity m) (map complexity (major_tasks m))
                 \<and> rounded_mean (confidence m) (map confidence (major_tasks m)))
               (category_tasks c))
         (list_estimates l)"
proof -
  from assms(2) have n: "power_of_two (length (list_estimates l))"
    and ns: "list_all (\<lambda>c. power_of_two (length (category_tasks c))
          \<and> list_all (\<lambda>m. power_of_two (length (major_tasks m))) (category_tasks c))
        (list_estimates l)"
    by (simp_all add: power_of_two_counts_def)
  have cx: "rounded_mean (complexity l) (map complexity (list_estimates l))
     \<and> list_all (\<lambda>c. rounded_mean (complexity c) (map complexity (category_tasks c))
           \<and> list_all (\<lambda>m. rounded_mean (complexity m) (map complexity (major_tasks m)))
               (category_tasks c))
         (list_estimates l)"
    using assms(1,3) n ns
    by (intro aggregate_tree [where fE = complexity and agg = mean_of and ok = power_of_two])
       (simp_all add: totals_of_fields mean_of_rounded rounded_mean_js_sort,
        auto dest: rounded_mean_unique)
  have cf: "rounded_mean (confidence l) (map confidence (list_estimates l))
     \<and> list_all (\<lambda>c. rounded_mean (confidence c) (map confidence (category_tasks c))
           \<and> list_all (\<lambda>m. rounded_mean (confidence m) (map confidence (major_tasks m)))
               (category_tasks c))
         (list_estimates l)"
    using assms(1,4) n ns
    by (intro aggregate_tree [where fE = confidence and agg = mean_of and ok = power_of_two])
       (simp_all add: totals_of_fields mean_of_rounded rounded_mean_js_sort,
        auto dest: rounded_mean_unique)
  from cx cf show ?thesis
    by (simp add: list_all_iff)
qed

lemma majorTask_means:
  assumes "majorTask v = Inr m"
  shows "complexity m = mean_of (map complexity (major_tasks m))"
    and "confidence m = mean_of (map confidence (major_tasks m))"
proof -
  from assms have "Estimates.truncate m = totals_of (major_tasks m)"
    using majorTask_aggregated by (auto simp: aggregated_major_def)
  then have "complexity (Estimates.truncate m) = complexity (totals_of (major_tasks m))"
    "confidence (Estimates.truncate m) = confidence (totals_of (major_tasks m))"
    by simp_all
  then show "complexity m = mean_of (map complexity (major_tasks m))"
    and "confidence m = mean_of (map confidence (major_tasks m))"
    by (simp_all add: totals_of_fields)
qed

lemma power_of_two_1 [simp]: "power_of_two (Suc 0)"
  unfolding power_of_two_def by (auto intro: image_eqI [of _ _ 0])

lemma power_of_two_2 [simp]: "power_of_two (Suc (Suc 0))"
  unfolding power_of_two_def by (auto intro: image_eqI [of _ _ 1])

section \<open>Means that are not exact\<close>

lemma div_4_6: "js_div (Fin 4) (Fin 6) = Fin (6004799503160661 / 9007199254740992)"
  using fl_normal [of "- 1" "2 / 3"] by (simp add: js_div_Fin round_half_even_def Let_def)

lemma div_1_6: "js_div (Fin 1) (Fin 6) = Fin (6004799503160661 / 36028797018963968)"
  using fl_normal [of "- 3" "1 / 6"] by (simp add: js_div_Fin round_half_even_def Let_def)

lemma div_2_3: "js_div (Fin 2) (Fin 3) = Fin (6004799503160661 / 9007199254740992)"
  using fl_normal [of "- 1" "2 / 3"] by (simp add: js_div_Fin round_half_even_def Let_def)

lemma div_4_3: "js_div (Fin 4) (Fin 3) = Fin (6004799503160661 / 4503599627370496)"
  using fl_normal [of 0 "4 / 3"] by (simp add: js_div_Fin round_half_even_def Let_def)

lemma div_3_3: "js_div (Fin 3) (Fin 3) = Fin 1"
  by (simp add: js_div_Fin)

lemma fl_two_thirds: "fl (6004799503160661 / 9007199254740992) = Fin (6004799503160661 / 9007199254740992)"
  using fl_normal [of "- 1" "6004799503160661 / 9007199254740992"]
  by (simp add: round_half_even_def Let_def)

lemma sixths_2: "fl (6004799503160661 / 4503599627370496) = Fin (6004799503160661 / 4503599627370496)"
  using fl_normal [of 0 "6004799503160661 / 4503599627370496"]
  by (simp add: round_half_even_def Let_def)

lemma sixths_3: "fl (18014398509481983 / 9007199254740992) = Fin 2"
  using fl_normal [of 0 "18014398509481983 / 9007199254740992"]
  by (simp add: round_half_even_def Let_def)

lemma sixths_4: "fl (78062393541088597 / 36028797018963968) = Fin (4878899596318037 / 2251799813685248)"
  using fl_normal [of 1 "78062393541088597 / 36028797018963968"]
  by (simp add: round_half_even_def Let_def)

lemma sixths_5: "fl (84067193044249253 / 36028797018963968) = Fin (2627099782632789 / 1125899906842624)"
  using fl_normal [of 1 "84067193044249253 / 36028797018963968"]
  by (simp add: round_half_even_def Let_def)

lemma sixths_6: "fl (90071992547409909 / 36028797018963968) = Fin (5629499534213119 / 2251799813685248)"
  using fl_normal [of 1 "90071992547409909 / 36028797018963968"]
  by (simp add: round_half_even_def Let_def)

lemma thirds_2: "fl (15011998757901653 / 9007199254740992) = Fin (3752999689475413 / 2251799813685248)"
  using fl_normal [of 0 "15011998757901653 / 9007199254740992"]
  by (simp add: round_half_even_def Let_def)

lemma thirds_3: "fl (13510798882111487 / 4503599627370496) = Fin 3"
  using fl_normal [of 1 "13510798882111487 / 4503599627370496"]
  by (simp add: round_half_even_def Let_def)

lemma Math_round_sixths: "Math_round (Fin (5629499534213119 / 2251799813685248)) = Fin 2"
  by (simp add: Math_round_def Let_def)

lemma Math_round_5_2: "Math_round (Fin (5 / 2)) = Fin 3"
  by (simp add: Math_round_def Let_def)

lemma mean_of_sixths: "mean_of [Fin 4, Fin 4, Fin 4, Fin 1, Fin 1, Fin 1] = Fin 2"
  by (simp add: mean_of_def js_length_def div_4_6 div_1_6 fl_two_thirds sixths_2 sixths_3
      sixths_4 sixths_5 sixths_6 Math_round_sixths)

lemma mean_of_thirds: "mean_of [Fin 2, Fin 3, Fin 4] = Fin 3"
  by (simp add: mean_of_def js_length_def div_2_3 div_3_3 div_4_3 fl_two_thirds thirds_2
      thirds_3)

lemma fl_one_half: "fl (1 / 2) = Fin (1 / 2)"
  using fl_dyadic [of 1 1] by simp

lemma mean_of_halves: "mean_of [Fin 1, Fin 2] = Fin 2"
  by (simp add: mean_of_def js_length_def js_div_Fin fl_one_half Math_round_def Let_def)

lemma totals_c2: "totals_of c2_tasks = c2_totals"
  by (simp add: totals_of_eq c2_tasks_def c2_totals_def minor_def mean_of_sixths)
     (simp add: sum_of_def)

lemma majorTaskIn_c2: "majorTaskIn c2_major = Inr (majorIn ''m'' (Fin 1) c2_tasks)"
  unfolding c2_major_def
  by (rule majorTaskIn_raw) (simp_all add: minorTask_raw c2_tasks_def)

lemma majorTask_c2: "majorTask c2_major = Inr c2_parsed"
  by (simp add: majorTask_eq majorTaskIn_c2 majorIn_def totals_c2 c2_parsed_def)
     (simp add: c2_totals_def ok_estimates_def)

lemma majorTask_c2_pair: "majorTask c2_pair = Inr c2_pair_parsed"
proof -
  have "majorTaskIn c2_pair =
      Inr (majorIn ''m'' (Fin 1)
        [minor ''a'' (Fin 1) (Fin 1) (Fin 1) (Fin 1), minor ''b'' (Fin 1) (Fin 1) (Fin 2) (Fin 2)])"
    unfolding c2_pair_def by (rule majorTaskIn_raw) (simp_all add: minorTask_raw)
  moreover have "totals_of
      [minor ''a'' (Fin 1) (Fin 1) (Fin 1) (Fin 1), minor ''b'' (Fin 1) (Fin 1) (Fin 2) (Fin 2)] =
      \<lparr>lowerEstimate = Fin 2, higherEstimate = Fin 2, complexity = Fin 2, confidence = Fin 2\<rparr>"
    by (simp add: totals_of_eq minor_def mean_of_halves) (simp add: sum_of_def)
  ultimately show ?thesis
    by (simp add: majorTask_eq majorIn_def c2_pair_parsed_def) (simp add: ok_estimates_def)
qed

lemma majorTask_c2_triple: "majorTask c2_triple = Inr c2_triple_parsed"
proof -
  have "majorTaskIn c2_triple =
      Inr (majorIn ''m'' (Fin 1)
        [minor ''a'' (Fin 1) (Fin 1) (Fin 2) (Fin 2), minor ''b'' (Fin 1) (Fin 1) (Fin 3) (Fin 3),
          minor ''c'' (Fin 1) (Fin 1) (Fin 4) (Fin 4)])"
    unfolding c2_triple_def by (rule majorTaskIn_raw) (simp_all add: minorTask_raw)
  moreover have "totals_of
      [minor ''a'' (Fin 1) (Fin 1) (Fin 2) (Fin 2), minor ''b'' (Fin 1) (Fin 1) (Fin 3) (Fin 3),
          minor ''c'' (Fin 1) (Fin 1) (Fin 4) (Fin 4)] =
      \<lparr>lowerEstimate = Fin 3, higherEstimate = Fin 3, complexity = Fin 3, confidence = Fin 3\<rparr>"
    by (simp add: totals_of_eq minor_def mean_of_thirds) (simp add: sum_of_def)
  ultimately show ?thesis
    by (simp add: majorTask_eq majorIn_def c2_triple_parsed_def) (simp add: ok_estimates_def)
qed

section \<open>The whole plan: order of the tasks and range of the estimates\<close>

lemma taskCategory_order:
  assumes "taskCategory x = Inr c"
  shows "\<exists>fs ys ms. x = Obj fs \<and> property fs ''tasks'' = Arr ys
     \<and> list_all2 (\<lambda>y m. majorTask y = Inr m
          \<and> (\<exists>gs ts. y = Obj gs \<and> property gs ''tasks'' = Arr ts
               \<and> list_all2 (\<lambda>t u. minorTask t = Inr u) ts (major_tasks m))) ys ms
     \<and> category_tasks c = js_sort by_position ms"
proof -
  from assms obtain i :: TaskCategoryIn where i: "taskCategoryIn x = Inr i"
    and c: "c = category_of (categoryIn_name i) (js_sort by_position (categoryIn_tasks i))
           (totals_of (categoryIn_tasks i))"
    by (rule taskCategory_InrD) blast
  from i obtain fs ys where x: "x = Obj fs" and p: "property fs ''tasks'' = Arr ys"
    and a: "list_all2 (\<lambda>y m. majorTask y = Inr m) ys (categoryIn_tasks i)"
    unfolding taskCategoryIn_def bind_eq_Inr field_eq_Inr z_array_eq_Inr by auto
  from a have "list_all2 (\<lambda>y m. majorTask y = Inr m
          \<and> (\<exists>gs ts. y = Obj gs \<and> property gs ''tasks'' = Arr ts
               \<and> list_all2 (\<lambda>t u. minorTask t = Inr u) ts (major_tasks m))) ys (categoryIn_tasks i)"
    by (rule list_all2_mono) (use majorTask_tasks in blast)
  with x p c show ?thesis
    by auto
qed

lemma estimateList_order:
  assumes "estimateList v = Inr l"
  shows "\<exists>fs xs. v = Obj fs \<and> property fs ''estimates'' = Arr xs
     \<and> list_all2 (\<lambda>x c. \<exists>gs ys ms. x = Obj gs \<and> property gs ''tasks'' = Arr ys
          \<and> list_all2 (\<lambda>y m. majorTask y = Inr m
               \<and> (\<exists>hs ts. y = Obj hs \<and> property hs ''tasks'' = Arr ts
                    \<and> list_all2 (\<lambda>t u. minorTask t = Inr u) ts (major_tasks m))) ys ms
          \<and> category_tasks c = js_sort by_position (js_sort by_position ms)) xs (list_estimates l)"
proof -
  from assms obtain i cs where i: "estimateSchema v = Inr i"
    and r: "parse_all reaggregate (input_estimates i) = Inr cs"
    and l: "l = list_of cs (totals_of (input_estimates i))"
    by (rule estimateList_InrD) blast
  from i obtain fs xs where v: "v = Obj fs" and p: "property fs ''estimates'' = Arr xs"
    and a: "list_all2 (\<lambda>x c. taskCategory x = Inr c) xs (input_estimates i)"
    unfolding estimateSchema_def bind_eq_Inr field_eq_Inr z_array_eq_Inr by auto
  from r have b: "list_all2 (\<lambda>c1 c. reaggregate c1 = Inr c) (input_estimates i) cs"
    by (simp add: parse_all_eq_Inr)
  have "list_all2 (\<lambda>x c. \<exists>c1. taskCategory x = Inr c1 \<and> reaggregate c1 = Inr c) xs cs"
    using a b by (rule list_all2_compose)
  then have "list_all2 (\<lambda>x c. \<exists>gs ys ms. x = Obj gs \<and> property gs ''tasks'' = Arr ys
          \<and> list_all2 (\<lambda>y m. majorTask y = Inr m
               \<and> (\<exists>hs ts. y = Obj hs \<and> property hs ''tasks'' = Arr ts
                    \<and> list_all2 (\<lambda>t u. minorTask t = Inr u) ts (major_tasks m))) ys ms
          \<and> category_tasks c = js_sort by_position (js_sort by_position ms)) xs cs"
  proof (rule list_all2_mono)
    fix x c
    assume "\<exists>c1. taskCategory x = Inr c1 \<and> reaggregate c1 = Inr c"
    then obtain c1 where c1: "taskCategory x = Inr c1" and c: "reaggregate c1 = Inr c"
      by blast
    from reaggregate_InrD(2) [OF c]
    have "category_tasks c = js_sort by_position (category_tasks c1)"
      by simp
    with taskCategory_order [OF c1]
    show "\<exists>gs ys ms. x = Obj gs \<and> property gs ''tasks'' = Arr ys
          \<and> list_all2 (\<lambda>y m. majorTask y = Inr m
               \<and> (\<exists>hs ts. y = Obj hs \<and> property hs ''tasks'' = Arr ts
                    \<and> list_all2 (\<lambda>t u. minorTask t = Inr u) ts (major_tasks m))) ys ms
          \<and> category_tasks c = js_sort by_position (js_sort by_position ms)"
      by auto
  qed
  with v p l show ?thesis
    by simp
qed

lemma majorTask_c7_other: "majorTask c7_other = Inr c7_other_parsed"
proof -
  have "majorTaskIn c7_other =
      Inr (majorIn ''n'' (Fin 0)
        [minor ''d'' (Fin 1) (Fin 1) (Fin 1) (Fin 1), minor ''c'' (Fin 1) (Fin 1) (Fin 1) (Fin 1)])"
    unfolding c7_other_def by (rule majorTaskIn_raw) (simp_all add: minorTask_raw)
  moreover have "totals_of
      [minor ''d'' (Fin 1) (Fin 1) (Fin 1) (Fin 1), minor ''c'' (Fin 1) (Fin 1) (Fin 1) (Fin 1)] =
      \<lparr>lowerEstimate = Fin 2, higherEstimate = Fin 2, complexity = Fin 1, confidence = Fin 1\<rparr>"
    by (simp add: totals_of_eq minor_def mean_of_def sum_of_def js_length_def js_div_Fin
        fl_one_half)
  ultimately show ?thesis
    by (simp add: majorTask_eq majorIn_def c7_other_parsed_def) (simp add: ok_estimates_def)
qed

lemma fl_three_halves: "fl (3 / 2) = Fin (3 / 2)"
  using fl_dyadic [of 3 1] by simp

lemma totals_c7_order_input: "totals_of [c7_parsed_major, c7_other_parsed] = c7_order_totals"
  by (simp add: totals_of_eq c7_parsed_major_def c7_other_parsed_def c7_totals_def
      c7_order_totals_def mean_of_def sum_of_def js_length_def js_div_Fin fl_one_half
      fl_three_halves)

lemma totals_c7_order_sorted: "totals_of [c7_other_parsed, c7_parsed_major] = c7_order_totals"
  by (simp add: totals_of_eq c7_parsed_major_def c7_other_parsed_def c7_totals_def
      c7_order_totals_def mean_of_def sum_of_def js_length_def js_div_Fin fl_one_half
      fl_three_halves)

lemma sort_c7_order:
  "js_sort by_position [c7_parsed_major, c7_other_parsed] = [c7_other_parsed, c7_parsed_major]"
  "js_sort by_position [c7_other_parsed, c7_parsed_major] = [c7_other_parsed, c7_parsed_major]"
  by (simp_all add: js_sort_def by_position_def c7_parsed_major_def c7_other_parsed_def
      major_of_def majorIn_def js_sub_def js_neg_def js_gt0_def)

lemma ok_c7_order_totals [simp]: "ok_estimates c7_order_totals"
  by (simp add: c7_order_totals_def ok_estimates_def)

lemma taskCategory_c7_order:
  "taskCategory (raw_category ''c'' [c7_major, c7_other]) = Inr c7_order_first"
proof -
  have "taskCategoryIn (raw_category ''c'' [c7_major, c7_other]) =
      Inr \<lparr>categoryIn_name = ''c'', categoryIn_tasks = [c7_parsed_major, c7_other_parsed]\<rparr>"
    by (rule taskCategoryIn_raw) (simp add: majorTask_c7_parsed majorTask_c7_other)
  then show ?thesis
    by (simp add: taskCategory_eq totals_c7_order_input sort_c7_order c7_order_first_def)
qed

lemma reaggregate_c7_order: "reaggregate c7_order_first = Inr c7_order_first"
  by (simp add: reaggregate_def c7_order_first_def totals_c7_order_sorted sort_c7_order)

lemma totals_c7_order_category: "totals_of [c7_order_first] = c7_order_totals"
  by (simp add: totals_of_eq c7_order_first_def c7_order_totals_def mean_of_def sum_of_def
      js_length_def js_div_Fin)

lemma estimateList_c7_order: "estimateList c7_order_plan = Inr c7_order_result"
  unfolding c7_order_plan_def
  by (simp add: estimateList_eq estimateSchema_raw taskCategory_c7_order reaggregate_c7_order
      totals_c7_order_category c7_order_result_def)

lemma aggregated_major_range:
  assumes "aggregated_major m" "list_all range_ok (major_tasks m)"
  shows "range_ok m"
proof -
  from assms(1) have ok: "ok_estimates m" and eq: "Estimates.truncate m = totals_of (major_tasks m)"
    by (simp_all add: aggregated_major_def)
  from ok have "ok_estimates (Estimates.truncate m)"
    by (simp add: ok_estimates_def)
  with assms(2) have "range_ok (Estimates.truncate m)"
    unfolding eq by (simp add: totals_range_ok)
  then show ?thesis
    by (simp add: range_ok_def)
qed

lemma estimateList_majors_aggregated:
  assumes "estimateList v = Inr l"
  shows "list_all (\<lambda>c. list_all aggregated_major (category_tasks c)) (list_estimates l)"
proof -
  from assms obtain i cs where i: "estimateSchema v = Inr i"
    and r: "parse_all reaggregate (input_estimates i) = Inr cs"
    and l: "l = list_of cs (totals_of (input_estimates i))"
    by (rule estimateList_InrD) blast
  from i obtain fs xs where
    a: "list_all2 (\<lambda>x c. taskCategory x = Inr c) xs (input_estimates i)"
    unfolding estimateSchema_def bind_eq_Inr field_eq_Inr z_array_eq_Inr by auto
  from r have b: "list_all2 (\<lambda>c1 c. reaggregate c1 = Inr c) (input_estimates i) cs"
    by (simp add: parse_all_eq_Inr)
  have "list_all2 (\<lambda>x c. \<exists>c1. taskCategory x = Inr c1 \<and> reaggregate c1 = Inr c) xs cs"
    using a b by (rule list_all2_compose)
  moreover have "list_all (\<lambda>x. True) xs"
    by (simp add: list_all_iff)
  ultimately have "list_all (\<lambda>c. list_all aggregated_major (category_tasks c)) cs"
  proof (rule list_all2_right)
    fix x c
    assume "\<exists>c1. taskCategory x = Inr c1 \<and> reaggregate c1 = Inr c"
    then obtain c1 where c1: "taskCategory x = Inr c1" and c: "reaggregate c1 = Inr c"
      by blast
    from reaggregate_InrD(2) [OF c] taskCategory_majors [OF c1]
    show "list_all aggregated_major (category_tasks c)"
      by simp
  qed
  then show ?thesis
    by (simp add: l)
qed

lemma estimateList_range_first:
  assumes "estimateList v = Inr l" "estimateSchema v = Inr i"
    and "list_all range_ok (input_estimates i)"
  shows "range_ok l"
proof -
  from assms(1) obtain j cs where "estimateSchema v = Inr j"
    and ok: "ok_estimates (totals_of (input_estimates j))"
    and l: "l = list_of cs (totals_of (input_estimates j))"
    by (rule estimateList_InrD) blast
  with assms(2) have "j = i"
    by simp
  with ok l assms(3) show ?thesis
    by (simp add: totals_range_ok)
qed

lemma estimateList_range_leaves:
  assumes "estimateList v = Inr l" "list_all range_ok (all_minors l)"
  shows "range_ok l
    \<and> list_all (\<lambda>c. range_ok c \<and> list_all range_ok (category_tasks c)) (list_estimates l)"
proof -
  have m: "list_all (\<lambda>c. list_all range_ok (category_tasks c)) (list_estimates l)"
    using estimateList_majors_aggregated [OF assms(1)] assms(2)
    by (auto simp: list_all_iff all_minors_def category_minors_def
        intro!: aggregated_major_range)
  with estimateList_range [OF assms(1)] show ?thesis
    by (auto simp: list_all_iff)
qed

lemma estimateSchema_c8_plain:
  "estimateSchema c8_plain = Inr \<lparr>input_estimates = [c7_parsed_category]\<rparr>"
  unfolding c8_plain_def by (rule estimateSchema_raw) (simp add: taskCategory_c7)

section \<open>The claims\<close>

subsection \<open>C1: the lower and higher estimates are sums\<close>

text \<open>
  C1 as the specification states it: at every non-leaf node the derived \<open>lowerEstimate\<close> is
  the exact sum of the \<open>lowerEstimate\<close> values of the children, and likewise for
  \<open>higherEstimate\<close>.  It fails in the plan below, whose category has three major tasks
  with the lower estimates \<open>1\<close>, \<open>1\<close>, \<open>2\<^sup>5\<^sup>3\<close> at the positions 3, 2, 1.  The sums are sums
  of doubles, taken from left to right.  The category of the result holds its major tasks
  sorted, with the lower estimates \<open>2\<^sup>5\<^sup>3\<close>, \<open>1\<close>, \<open>1\<close>, and the sum the schema took when it
  parsed the category again after the callback of \<open>estimateList\<close>, over the sorted major
  tasks: \<open>2\<^sup>5\<^sup>3\<close>, not \<open>2\<^sup>5\<^sup>3 + 2\<close>.  The plan holds the sum over the categories as they
  were parsed the first time, in the order of the input: \<open>2\<^sup>5\<^sup>3 + 2\<close>, while its only
  category has the lower estimate \<open>2\<^sup>5\<^sup>3\<close>.
\<close>

theorem C1_counterexample:
  "estimateList skew_plan = Inr skew_result
   \<and> map lowerEstimate (list_estimates skew_result) = [Fin 9007199254740992]
   \<and> lowerEstimate skew_result = Fin 9007199254740994
   \<and> \<not> exact_sum (lowerEstimate skew_result) (map lowerEstimate (list_estimates skew_result))
   \<and> list_estimates skew_result = [category_of ''c'' skew_sorted skew_second]
   \<and> map lowerEstimate (category_tasks (category_of ''c'' skew_sorted skew_second)) =
       [Fin 9007199254740992, Fin 1, Fin 1]
   \<and> lowerEstimate (category_of ''c'' skew_sorted skew_second) = Fin 9007199254740992
   \<and> \<not> exact_sum (lowerEstimate (category_of ''c'' skew_sorted skew_second))
         (map lowerEstimate (category_tasks (category_of ''c'' skew_sorted skew_second)))"
  by (simp add: estimateList_skew)
     (simp add: skew_result_def skew_sorted_def skew_major_def skew_first_def skew_second_def
       exact_sum_def minor_def)

text \<open>
  C1, amended: when the lower estimates of all minor tasks of a plan are integers whose
  absolute values sum to at most \<open>2\<^sup>5\<^sup>3\<close>, and the higher estimates too, then in the result
  of \<open>estimateList\<close> the \<open>lowerEstimate\<close> of the plan, of every category and of every
  major task is the exact sum of the \<open>lowerEstimate\<close> values of its children, and
  likewise for \<open>higherEstimate\<close>.
\<close>

theorem C1_exact_sums:
  assumes "estimateList v = Inr l"
    and "small_integers (map lowerEstimate (all_minors l))"
    and "small_integers (map higherEstimate (all_minors l))"
  shows "exact_sum (lowerEstimate l) (map lowerEstimate (list_estimates l))
     \<and> exact_sum (higherEstimate l) (map higherEstimate (list_estimates l))
     \<and> list_all (\<lambda>c. exact_sum (lowerEstimate c) (map lowerEstimate (category_tasks c))
           \<and> exact_sum (higherEstimate c) (map higherEstimate (category_tasks c))
           \<and> list_all (\<lambda>m. exact_sum (lowerEstimate m) (map lowerEstimate (major_tasks m))
                 \<and> exact_sum (higherEstimate m) (map higherEstimate (major_tasks m)))
               (category_tasks c))
         (list_estimates l)"
proof -
  have lo: "exact_sum (lowerEstimate l) (map lowerEstimate (list_estimates l))
     \<and> list_all (\<lambda>c. exact_sum (lowerEstimate c) (map lowerEstimate (category_tasks c))
           \<and> list_all (\<lambda>m. exact_sum (lowerEstimate m) (map lowerEstimate (major_tasks m)))
               (category_tasks c))
         (list_estimates l)"
    using assms(1,2)
    by (intro aggregate_tree [where fE = lowerEstimate and agg = sum_of and ok = "\<lambda>n. True"])
       (simp_all add: totals_of_fields sum_of_exact exact_sum_js_sort list_all_iff,
        auto dest: exact_sum_unique)
  have hi: "exact_sum (higherEstimate l) (map higherEstimate (list_estimates l))
     \<and> list_all (\<lambda>c. exact_sum (higherEstimate c) (map higherEstimate (category_tasks c))
           \<and> list_all (\<lambda>m. exact_sum (higherEstimate m) (map higherEstimate (major_tasks m)))
               (category_tasks c))
         (list_estimates l)"
    using assms(1,3)
    by (intro aggregate_tree [where fE = higherEstimate and agg = sum_of and ok = "\<lambda>n. True"])
       (simp_all add: totals_of_fields sum_of_exact exact_sum_js_sort list_all_iff,
        auto dest: exact_sum_unique)
  from lo hi show ?thesis
    by (simp add: list_all_iff)
qed

text \<open>
  The amended C1 at a plan with one category, one major task and two minor tasks with the
  lower estimates 2, 1 and the higher estimates 4, 2.
\<close>

theorem C1_witness:
  "estimateList c8_plain = Inr c7_parsed_plan
   \<and> map lowerEstimate (all_minors c7_parsed_plan) = [Fin 2, Fin 1]
   \<and> map higherEstimate (all_minors c7_parsed_plan) = [Fin 4, Fin 2]
   \<and> lowerEstimate c7_parsed_plan = Fin 3 \<and> higherEstimate c7_parsed_plan = Fin 6
   \<and> exact_sum (lowerEstimate c7_parsed_plan) (map lowerEstimate (list_estimates c7_parsed_plan))
   \<and> exact_sum (higherEstimate c7_parsed_plan) (map higherEstimate (list_estimates c7_parsed_plan))
   \<and> list_all (\<lambda>c. exact_sum (lowerEstimate c) (map lowerEstimate (category_tasks c))
         \<and> exact_sum (higherEstimate c) (map higherEstimate (category_tasks c))
         \<and> list_all (\<lambda>m. exact_sum (lowerEstimate m) (map lowerEstimate (major_tasks m))
               \<and> exact_sum (higherEstimate m) (map higherEstimate (major_tasks m)))
             (category_tasks c))
       (list_estimates c7_parsed_plan)"
proof -
  have m: "map lowerEstimate (all_minors c7_parsed_plan) = [Fin 2, Fin 1]"
    "map higherEstimate (all_minors c7_parsed_plan) = [Fin 4, Fin 2]"
    by (simp_all add: all_minors_def category_minors_def c7_parsed_plan_def
        c7_parsed_category_def c7_parsed_major_def c7_tasks_def minor_def)
  have "small_integers (map lowerEstimate (all_minors c7_parsed_plan))"
    "small_integers (map higherEstimate (all_minors c7_parsed_plan))"
    unfolding m by (simp_all add: small_integers_def is_integer_def)
  with C1_exact_sums [OF estimateList_c8_plain] m show ?thesis
    by (simp add: estimateList_c8_plain) (simp add: c7_parsed_plan_def c7_totals_def)
qed

subsection \<open>C2: complexity and confidence are rounded means\<close>

text \<open>
  C2 as the specification states it: at every non-leaf node with children the derived
  \<open>complexity\<close> is the rounded arithmetic mean of the \<open>complexity\<close> values of the children,
  and likewise for \<open>confidence\<close>.  The callback adds up the quotients
  \<^verbatim>\<open>task.complexity / input.tasks.length\<close>, each of them a double and each partial sum
  rounded to a double, and rounds the last sum with \<^verbatim>\<open>Math.round\<close>.  For the six minor tasks
  of the major task below, with the complexities 4, 4, 4, 1, 1, 1, the sum of the
  quotients is \<open>2.4999999999999996\<close> and the derived complexity is 2, while the mean is
  \<open>2.5\<close> and \<^verbatim>\<open>Math.round\<close> of it is 3.
\<close>

theorem C2_counterexample:
  "majorTask c2_major = Inr c2_parsed
   \<and> map complexity (major_tasks c2_parsed) = [Fin 4, Fin 4, Fin 4, Fin 1, Fin 1, Fin 1]
   \<and> complexity c2_parsed = Fin 2
   \<and> Math_round (Fin ((4 + 4 + 4 + 1 + 1 + 1) / 6)) = Fin 3
   \<and> \<not> rounded_mean (complexity c2_parsed) (map complexity (major_tasks c2_parsed))"
  by (simp add: majorTask_c2)
     (simp add: c2_parsed_def c2_tasks_def c2_totals_def minor_def rounded_mean_def
       Math_round_def Let_def)

text \<open>
  C2, amended: when every non-leaf node of the result of \<open>estimateList\<close> has a power of
  two as its number of children, and the complexities of all minor tasks of the plan are
  integers whose absolute values sum to at most \<open>2\<^sup>5\<^sup>3\<close>, and the confidences too, then
  the \<open>complexity\<close> of the plan, of every category and of every major task is
  \<^verbatim>\<open>Math.round\<close> (halves go up) of the arithmetic mean of the \<open>complexity\<close> values of its
  children, and likewise for \<open>confidence\<close>.  Moreover a major task whose minor tasks
  have the complexities 1, 2 has the complexity 2, and one whose minor tasks have the
  complexities 2, 3, 4 has the complexity 3.
\<close>

theorem C2_rounded_means:
  "(estimateList v = Inr l \<and> power_of_two_counts l
      \<and> small_integers (map complexity (all_minors l))
      \<and> small_integers (map confidence (all_minors l)) \<longrightarrow>
    rounded_mean (complexity l) (map complexity (list_estimates l))
    \<and> rounded_mean (confidence l) (map confidence (list_estimates l))
    \<and> list_all (\<lambda>c. rounded_mean (complexity c) (map complexity (category_tasks c))
          \<and> rounded_mean (confidence c) (map confidence (category_tasks c))
          \<and> list_all (\<lambda>m. rounded_mean (complexity m) (map complexity (major_tasks m))
                \<and> rounded_mean (confidence m) (map confidence (major_tasks m)))
              (category_tasks c))
        (list_estimates l))
   \<and> (majorTask pv = Inr p \<and> map complexity (major_tasks p) = [Fin 1, Fin 2] \<longrightarrow>
        complexity p = Fin 2)
   \<and> (majorTask tv = Inr t \<and> map complexity (major_tasks t) = [Fin 2, Fin 3, Fin 4] \<longrightarrow>
        complexity t = Fin 3)"
  using estimateList_rounded_means [of v l] majorTask_means(1) [of pv p]
    majorTask_means(1) [of tv t]
  by (simp add: mean_of_halves mean_of_thirds)

text \<open>
  The amended C2 at a plan with one category, one major task and two minor tasks with the
  complexities 2, 4 and the confidences 4, 2, and at major tasks whose minor tasks have
  the complexities 1, 2 and 2, 3, 4.
\<close>

theorem C2_witness:
  "estimateList c8_plain = Inr c7_parsed_plan
   \<and> map complexity (all_minors c7_parsed_plan) = [Fin 2, Fin 4]
   \<and> map confidence (all_minors c7_parsed_plan) = [Fin 4, Fin 2]
   \<and> complexity c7_parsed_plan = Fin 3 \<and> confidence c7_parsed_plan = Fin 3
   \<and> rounded_mean (complexity c7_parsed_plan) (map complexity (list_estimates c7_parsed_plan))
   \<and> rounded_mean (confidence c7_parsed_plan) (map confidence (list_estimates c7_parsed_plan))
   \<and> list_all (\<lambda>c. rounded_mean (complexity c) (map complexity (category_tasks c))
         \<and> rounded_mean (confidence c) (map confidence (category_tasks c))
         \<and> list_all (\<lambda>m. rounded_mean (complexity m) (map complexity (major_tasks m))
               \<and> rounded_mean (confidence m) (map confidence (major_tasks m)))
             (category_tasks c))
       (list_estimates c7_parsed_plan)
   \<and> majorTask c2_pair = Inr c2_pair_parsed
   \<and> map complexity (major_tasks c2_pair_parsed) = [Fin 1, Fin 2]
   \<and> complexity c2_pair_parsed = Fin 2
   \<and> majorTask c2_triple = Inr c2_triple_parsed
   \<and> map complexity (major_tasks c2_triple_parsed) = [Fin 2, Fin 3, Fin 4]
   \<and> complexity c2_triple_parsed = Fin 3"
proof -
  have m: "map complexity (all_minors c7_parsed_plan) = [Fin 2, Fin 4]"
    "map confidence (all_minors c7_parsed_plan) = [Fin 4, Fin 2]"
    by (simp_all add: all_minors_def category_minors_def c7_parsed_plan_def
        c7_parsed_category_def c7_parsed_major_def c7_tasks_def minor_def)
  have s: "small_integers (map complexity (all_minors c7_parsed_plan))"
    "small_integers (map confidence (all_minors c7_parsed_plan))"
    unfolding m by (simp_all add: small_integers_def is_integer_def)
  have n: "power_of_two_counts c7_parsed_plan"
    by (simp add: power_of_two_counts_def c7_parsed_plan_def c7_parsed_category_def
        c7_parsed_major_def c7_tasks_def majorIn_def major_of_def category_of_def list_of_def)
  have p: "map complexity (major_tasks c2_pair_parsed) = [Fin 1, Fin 2]"
    by (simp add: c2_pair_parsed_def minor_def)
  have t: "map complexity (major_tasks c2_triple_parsed) = [Fin 2, Fin 3, Fin 4]"
    by (simp add: c2_triple_parsed_def minor_def)
  have e: "complexity c7_parsed_plan = Fin 3" "confidence c7_parsed_plan = Fin 3"
    by (simp_all add: c7_parsed_plan_def c7_totals_def)
  from C2_rounded_means [of c8_plain c7_parsed_plan c2_pair c2_pair_parsed
      c2_triple c2_triple_parsed] s n p t
  show ?thesis
    unfolding m e by (simp add: estimateList_c8_plain majorTask_c2_pair majorTask_c2_triple)
qed

subsection \<open>C3: an input of the wrong shape\<close>

lemma majorTaskIn_c3: "majorTaskIn c3_major = Inl ZodError"
  by (simp add: c3_major_def majorTaskIn_def minorTask_def z_string_def)

lemma taskCategoryIn_c3: "taskCategoryIn c3_category = Inl ZodError"
  by (simp add: c3_category_def taskCategoryIn_def majorTask_eq majorTaskIn_c3)

lemma estimateSchema_c3: "estimateSchema c3_plan = Inl ZodError"
  by (simp add: c3_plan_def estimateSchema_def taskCategory_eq taskCategoryIn_c3)

lemma c3_not_shape: "\<not> shape_plan c3_plan"
  by (simp add: c3_plan_def c3_category_def c3_major_def shape_plan_def is_array_of_def
      shape_category_def shape_major_def shape_minor_def is_string_def)

text \<open>
  C3: a raw plan that does not have the shape of section 6 of the specification, at any
  level, makes the whole of \<^verbatim>\<open>estimateList.parse\<close> throw, so there is no partial result;
  and at every level the callback of \<^verbatim>\<open>z.preprocess\<close> throws before its aggregation
  when the children do not validate (\<open>majorTaskIn\<close>, \<open>taskCategoryIn\<close> and
  \<open>estimateSchema\<close> are the validations of the children).
\<close>

theorem C3_shape_errors:
  "(\<not> shape_plan v \<longrightarrow> estimateList v = Inl ZodError)
   \<and> (majorTaskIn mv = Inl ZodError \<longrightarrow> majorTask_pre mv = Inl ZodError \<and> majorTask mv = Inl ZodError)
   \<and> (taskCategoryIn cv = Inl ZodError \<longrightarrow>
        taskCategory_pre cv = Inl ZodError \<and> taskCategory cv = Inl ZodError)
   \<and> (estimateSchema v = Inl ZodError \<longrightarrow>
        estimateList_pre v = Inl ZodError \<and> estimateList v = Inl ZodError)"
proof -
  have "estimateList v = Inl ZodError" if "\<not> shape_plan v"
    using that by (intro not_Inr_error) (auto dest: estimateList_shape)
  then show ?thesis
    by (simp add: majorTask_pre_eq majorTask_eq taskCategory_pre_eq taskCategory_eq
        estimateList_pre_eq estimateList_eq)
qed

text \<open>C3 at a plan whose only minor task has no \<open>name\<close>.\<close>

theorem C3_witness:
  "\<not> shape_plan c3_plan \<and> estimateList c3_plan = Inl ZodError
   \<and> majorTaskIn c3_major = Inl ZodError \<and> majorTask c3_major = Inl ZodError
   \<and> taskCategoryIn c3_category = Inl ZodError \<and> taskCategory c3_category = Inl ZodError
   \<and> estimateSchema c3_plan = Inl ZodError"
  using C3_shape_errors [of c3_plan c3_major c3_category] c3_not_shape
  by (simp add: majorTaskIn_c3 taskCategoryIn_c3 estimateSchema_c3)

subsection \<open>C4: the major tasks of a category are sorted by position\<close>

text \<open>
  C4: aggregating a category leaves its major tasks in ascending order of
  \<open>gantt.position\<close> (by \<^verbatim>\<open><=\<close> on numbers), and the sort is stable: for every position \<open>p\<close>
  the major tasks whose position equals \<open>p\<close> are the same sequence before and after, so
  the result is a rearrangement of the parsed tasks that keeps tasks of equal position
  in their order.  The positions are numbers of the input, hence doubles: that is the
  only hypothesis, and it excludes no input of the program.
\<close>

theorem C4_stable_sort:
  assumes "taskCategory v = Inr c" "taskCategoryIn v = Inr i"
    and "list_all (\<lambda>m. is_js_number (position (major_gantt m))) (categoryIn_tasks i)"
  shows "sorted_wrt position_le (category_tasks c)
     \<and> (\<forall>p. filter (\<lambda>m. js_eq (position (major_gantt m)) p) (category_tasks c) =
              filter (\<lambda>m. js_eq (position (major_gantt m)) p) (categoryIn_tasks i))
     \<and> set (category_tasks c) = set (categoryIn_tasks i)
     \<and> length (category_tasks c) = length (categoryIn_tasks i)"
proof -
  have "list_all aggregated_major (categoryIn_tasks i)"
    using assms(2) by (rule taskCategoryIn_ok)
  with assms(3) have ok: "list_all position_ok (categoryIn_tasks i)"
    by (auto simp: list_all_iff position_ok_def aggregated_position)
  have len: "length (js_sort by_position xs) = length xs" for xs :: "MajorTask list"
  proof (induction xs)
    case (Cons x xs)
    have "length (sort_insert by_position x ys) = Suc (length ys)" for ys
      by (induction ys) simp_all
    with Cons show ?case
      by (simp add: js_sort_Cons)
  qed simp
  show ?thesis
    unfolding taskCategory_sorted [OF assms(1,2)]
    using ok by (simp add: sorted_js_sort filter_js_sort len)
qed

text \<open>C4 at a category whose major tasks have the positions 3, 1, 2.\<close>

theorem C4_witness:
  "taskCategoryIn c4_category = Inr c4_input
   \<and> map (position \<circ> major_gantt) (categoryIn_tasks c4_input) = [Fin 3, Fin 1, Fin 2]
   \<and> taskCategory c4_category =
       Inr (category_of ''c'' [c4_major ''first'' 1, c4_major ''second'' 2, c4_major ''third'' 3]
              c4_sum)
   \<and> sorted_wrt position_le [c4_major ''first'' 1, c4_major ''second'' 2, c4_major ''third'' 3]"
  using C4_stable_sort [OF taskCategory_c4 taskCategoryIn_c4]
  by (simp add: taskCategory_c4 taskCategoryIn_c4)
     (simp add: c4_input_def c4_major_def major_of_def majorIn_def category_of_def
        is_js_number_def)

subsection \<open>C5: nodes without children\<close>

lemma majorTaskIn_c5: "majorTaskIn c5_major = Inr c5_majorIn"
  by (simp add: c5_major_def c5_majorIn_def majorTaskIn_def gantt_def)

lemma taskCategoryIn_c5:
  "taskCategoryIn c5_category = Inr \<lparr>categoryIn_name = ''c'', categoryIn_tasks = []\<rparr>"
  by (simp add: c5_category_def taskCategoryIn_def)

lemma estimateSchema_c5: "estimateSchema c5_plan = Inr \<lparr>input_estimates = []\<rparr>"
  by (simp add: c5_plan_def estimateSchema_def)

text \<open>
  C5 as the specification states it: a node without children is aggregated without an
  exception, and its complexity and confidence are the \<open>NaN\<close> of a division by zero.
  The code does not divide at all: the callback of \<^verbatim>\<open>reduce\<close> never runs on an empty
  array, so the initial accumulator is the result.  A major task without tasks gets
  complexity and confidence \<open>0\<close>.
\<close>

theorem C5_counterexample:
  "majorTask c5_major = Inr (major_of c5_majorIn zero_totals)
   \<and> major_tasks (major_of c5_majorIn zero_totals) = []
   \<and> complexity (major_of c5_majorIn zero_totals) = Fin 0
   \<and> confidence (major_of c5_majorIn zero_totals) = Fin 0"
  by (simp add: majorTask_eq majorTaskIn_c5 major_of_def c5_majorIn_def)
     (simp add: zero_totals_def)

text \<open>
  C5, amended: for every non-leaf node whose (validated) sequence of children is empty,
  aggregation throws no exception and the four derived fields are \<open>0\<close>, at each of the
  three levels.
\<close>

theorem C5_empty_children:
  "(majorTaskIn mv = Inr mi \<and> majorIn_tasks mi = [] \<longrightarrow>
      majorTask mv = Inr (major_of mi zero_totals))
   \<and> (taskCategoryIn cv = Inr ci \<and> categoryIn_tasks ci = [] \<longrightarrow>
        taskCategory cv = Inr (category_of (categoryIn_name ci) [] zero_totals))
   \<and> (estimateSchema v = Inr i \<and> input_estimates i = [] \<longrightarrow>
        estimateList v = Inr (list_of [] zero_totals))"
  by (simp add: majorTask_eq taskCategory_eq estimateList_eq js_sort_def)

text \<open>The amended C5 at a major task, a category and a plan without children.\<close>

theorem C5_witness:
  "majorTask c5_major = Inr (major_of c5_majorIn zero_totals)
   \<and> taskCategory c5_category = Inr (category_of ''c'' [] zero_totals)
   \<and> estimateList c5_plan = Inr (list_of [] zero_totals)"
  using C5_empty_children [of c5_major c5_majorIn c5_category
      "\<lparr>categoryIn_name = ''c'', categoryIn_tasks = []\<rparr>" c5_plan "\<lparr>input_estimates = []\<rparr>"]
  by (simp add: majorTaskIn_c5 taskCategoryIn_c5 estimateSchema_c5) (simp add: c5_majorIn_def)

subsection \<open>C6: parsing the result once more\<close>

text \<open>
  C6 as the specification states it: feeding the aggregated tree back reproduces every
  derived field.  The plan below gives a result with the lower estimate \<open>2\<^sup>5\<^sup>3 + 2\<close>; fed
  back, it gives the lower estimate \<open>2\<^sup>5\<^sup>3\<close>.  The first run adds the lower estimates of
  the major tasks in the order of the input (\<open>1 + 1 + 2\<^sup>5\<^sup>3\<close>) for the plan's total, the
  second run in sorted order (\<open>2\<^sup>5\<^sup>3 + 1 + 1\<close>, where each addition of \<open>1\<close> is rounded away).
\<close>

theorem C6_counterexample:
  "estimateList skew_plan = Inr skew_result
   \<and> estimateList (val_of_EstimateList skew_result) = Inr skew_rerun
   \<and> lowerEstimate skew_result = Fin 9007199254740994
   \<and> lowerEstimate skew_rerun = Fin 9007199254740992"
  by (simp add: estimateList_skew rerun_skew)
     (simp add: skew_result_def skew_rerun_def skew_first_def skew_second_def)

text \<open>
  C6, amended: when the result of a successful run is fed back and that second run
  succeeds, it reproduces the categories of the first result (every category and
  major task with its derived fields, and the order of the children at every level);
  the four derived fields of the plan are then the totals of those categories, which
  need not be the first run's; and feeding the second result back reproduces it
  entirely.  The hypothesis on the positions says that they are doubles.
\<close>

theorem C6_rerun:
  assumes "estimateList v = Inr l" "positions_ok l"
    and "estimateList (val_of_EstimateList l) = Inr l'"
  shows "list_estimates l' = list_estimates l
     \<and> Estimates.truncate l' = totals_of (list_estimates l)
     \<and> estimateList (val_of_EstimateList l') = Inr l'"
proof -
  have s: "list_all settled (list_estimates l)"
    using assms(1,2) by (rule estimateList_output_settled)
  from assms(3) have ok: "ok_estimates (totals_of (list_estimates l))"
    and l': "l' = list_of (list_estimates l) (totals_of (list_estimates l))"
    unfolding estimateList_settled [OF s] by (auto split: if_splits)
  from s have "list_all settled (list_estimates l')"
    by (simp add: l')
  then have "estimateList (val_of_EstimateList l') = Inr l'"
    using ok by (simp add: estimateList_settled) (simp add: l')
  then show ?thesis
    by (simp add: l' list_of_def Estimates.truncate_def)
qed

text \<open>The amended C6 at the plan of the counterexample.\<close>

theorem C6_witness:
  "estimateList skew_plan = Inr skew_result
   \<and> estimateList (val_of_EstimateList skew_result) = Inr skew_rerun
   \<and> list_estimates skew_rerun = list_estimates skew_result
   \<and> estimateList (val_of_EstimateList skew_rerun) = Inr skew_rerun"
proof -
  have "positions_ok skew_result"
    by (simp add: positions_ok_def skew_result_def skew_sorted_def is_js_number_def)
  with C6_rerun [OF estimateList_skew _ rerun_skew] show ?thesis
    by (simp add: estimateList_skew rerun_skew)
qed

subsection \<open>C7: the order of the minor tasks and of the categories\<close>

text \<open>
  C7: aggregating a major task keeps its minor tasks in the order of the raw \<open>tasks\<close>
  array (the parsed tasks are, position by position, the parsed elements of that array).
  In the result of \<open>estimateList\<close> the categories are in the order of the raw
  \<open>estimates\<close> array (each category of the result is, position by position, the category
  parsed from the raw element and parsed once more by the schema that follows the
  callback); the major tasks of each category are the major tasks parsed from the raw
  \<open>tasks\<close> array of that category, sorted by position (once by each of the two parses),
  and each of these major tasks has its minor tasks in the order of its own raw \<open>tasks\<close>
  array.  Only the major tasks of a category are sorted.
\<close>

theorem C7_order_kept:
  "(majorTask mv = Inr m \<longrightarrow>
      (\<exists>fs xs. mv = Obj fs \<and> property fs ''tasks'' = Arr xs
         \<and> list_all2 (\<lambda>x t. minorTask x = Inr t) xs (major_tasks m)))
   \<and> (estimateList v = Inr l \<longrightarrow>
      (\<exists>fs xs. v = Obj fs \<and> property fs ''estimates'' = Arr xs
         \<and> list_all2 (\<lambda>x c. \<exists>c1. taskCategory x = Inr c1
               \<and> taskCategory (val_of_TaskCategory c1) = Inr c) xs (list_estimates l)
         \<and> list_all2 (\<lambda>x c. \<exists>gs ys ms. x = Obj gs \<and> property gs ''tasks'' = Arr ys
               \<and> list_all2 (\<lambda>y m. majorTask y = Inr m
                    \<and> (\<exists>hs ts. y = Obj hs \<and> property hs ''tasks'' = Arr ts
                         \<and> list_all2 (\<lambda>t u. minorTask t = Inr u) ts (major_tasks m))) ys ms
               \<and> category_tasks c = js_sort by_position (js_sort by_position ms))
             xs (list_estimates l)))"
proof (intro conjI impI)
  assume "majorTask mv = Inr m"
  then show "\<exists>fs xs. mv = Obj fs \<and> property fs ''tasks'' = Arr xs
         \<and> list_all2 (\<lambda>x t. minorTask x = Inr t) xs (major_tasks m)"
    by (rule majorTask_tasks)
next
  assume l: "estimateList v = Inr l"
  from estimateList_categories [OF l] obtain fs xs where v: "v = Obj fs"
    and p: "property fs ''estimates'' = Arr xs"
    and a: "list_all2 (\<lambda>x c. \<exists>c1. taskCategory x = Inr c1
               \<and> taskCategory (val_of_TaskCategory c1) = Inr c) xs (list_estimates l)"
    by blast
  from estimateList_order [OF l] v p
  have "list_all2 (\<lambda>x c. \<exists>gs ys ms. x = Obj gs \<and> property gs ''tasks'' = Arr ys
               \<and> list_all2 (\<lambda>y m. majorTask y = Inr m
                    \<and> (\<exists>hs ts. y = Obj hs \<and> property hs ''tasks'' = Arr ts
                         \<and> list_all2 (\<lambda>t u. minorTask t = Inr u) ts (major_tasks m))) ys ms
               \<and> category_tasks c = js_sort by_position (js_sort by_position ms))
             xs (list_estimates l)"
    by auto
  with v p a show "\<exists>fs xs. v = Obj fs \<and> property fs ''estimates'' = Arr xs
         \<and> list_all2 (\<lambda>x c. \<exists>c1. taskCategory x = Inr c1
               \<and> taskCategory (val_of_TaskCategory c1) = Inr c) xs (list_estimates l)
         \<and> list_all2 (\<lambda>x c. \<exists>gs ys ms. x = Obj gs \<and> property gs ''tasks'' = Arr ys
               \<and> list_all2 (\<lambda>y m. majorTask y = Inr m
                    \<and> (\<exists>hs ts. y = Obj hs \<and> property hs ''tasks'' = Arr ts
                         \<and> list_all2 (\<lambda>t u. minorTask t = Inr u) ts (major_tasks m))) ys ms
               \<and> category_tasks c = js_sort by_position (js_sort by_position ms))
             xs (list_estimates l)"
    by blast
qed

text \<open>
  C7 at the major task \<open>m\<close> with the minor tasks \<open>b\<close>, \<open>a\<close>, and at a plan whose category
  holds \<open>m\<close> (position 1) and then \<open>n\<close> (position 0, minor tasks \<open>d\<close>, \<open>c\<close>): the result
  holds \<open>n\<close> before \<open>m\<close>, with the minor tasks \<open>d\<close>, \<open>c\<close> and \<open>b\<close>, \<open>a\<close>.
\<close>

theorem C7_witness:
  "majorTask c7_major = Inr c7_parsed_major
   \<and> (\<exists>fs xs. c7_major = Obj fs \<and> property fs ''tasks'' = Arr xs
        \<and> list_all2 (\<lambda>x t. minorTask x = Inr t) xs (major_tasks c7_parsed_major))
   \<and> map minor_name (major_tasks c7_parsed_major) = [''b'', ''a'']
   \<and> estimateList c7_order_plan = Inr c7_order_result
   \<and> (\<exists>fs xs. c7_order_plan = Obj fs \<and> property fs ''estimates'' = Arr xs
         \<and> list_all2 (\<lambda>x c. \<exists>c1. taskCategory x = Inr c1
               \<and> taskCategory (val_of_TaskCategory c1) = Inr c) xs (list_estimates c7_order_result)
         \<and> list_all2 (\<lambda>x c. \<exists>gs ys ms. x = Obj gs \<and> property gs ''tasks'' = Arr ys
               \<and> list_all2 (\<lambda>y m. majorTask y = Inr m
                    \<and> (\<exists>hs ts. y = Obj hs \<and> property hs ''tasks'' = Arr ts
                         \<and> list_all2 (\<lambda>t u. minorTask t = Inr u) ts (major_tasks m))) ys ms
               \<and> category_tasks c = js_sort by_position (js_sort by_position ms))
             xs (list_estimates c7_order_result))
   \<and> map (\<lambda>c. map (\<lambda>m. (major_name m, map minor_name (major_tasks m))) (category_tasks c))
       (list_estimates c7_order_result) = [[(''n'', [''d'', ''c'']), (''m'', [''b'', ''a''])]]"
proof -
  note C7 = C7_order_kept [of c7_major c7_parsed_major c7_order_plan c7_order_result]
  have a: "map minor_name (major_tasks c7_parsed_major) = [''b'', ''a'']"
    by (simp add: c7_parsed_major_def c7_tasks_def minor_def)
  have b: "map (\<lambda>c. map (\<lambda>m. (major_name m, map minor_name (major_tasks m))) (category_tasks c))
       (list_estimates c7_order_result) = [[(''n'', [''d'', ''c'']), (''m'', [''b'', ''a''])]]"
    by (simp add: c7_order_result_def c7_order_first_def c7_parsed_major_def
        c7_other_parsed_def c7_tasks_def minor_def major_of_def majorIn_def)
  from C7 a b show ?thesis
    by (simp only: majorTask_c7_parsed estimateList_c7_order simp_thms)
qed

subsection \<open>C8: estimate fields of the raw input on non-leaf nodes\<close>

text \<open>
  C8: two raw inputs that differ only in what they supply for \<open>lowerEstimate\<close>,
  \<open>higherEstimate\<close>, \<open>complexity\<close> or \<open>confidence\<close> on major tasks, categories or the plan
  (that is, two raw inputs with the same erasure) have the same result: the schemas
  \<open>majorTaskIn\<close>, \<open>taskCategoryIn\<close> and \<open>estimateSchema\<close> drop these properties before the
  callback computes them.
\<close>

theorem C8_derived_fields_replace_input:
  "erase_plan v = erase_plan w \<Longrightarrow> estimateList v = estimateList w"
  using estimateList_erase [of v] estimateList_erase [of w] by simp

text \<open>
  C8 at a plan and the same plan with estimate properties of every kind (a number, a
  string, \<open>null\<close>, \<open>NaN\<close>) added to the plan, its category and its major task.
\<close>

theorem C8_witness:
  "erase_plan c8_decorated = erase_plan c8_plain \<and> c8_decorated \<noteq> c8_plain
   \<and> estimateList c8_decorated = estimateList c8_plain"
  using C8_derived_fields_replace_input [OF erase_c8] erase_c8
  by (simp add: c8_decorated_def c8_plain_def raw_plan_def with_estimates_def)

subsection \<open>C9: what validation says about the numbers of a minor task\<close>

lemma minorTask_c9: "minorTask c9_task = Inr c9_parsed"
  by (simp add: c9_task_def c9_parsed_def minorTask_def estimates_def)

text \<open>
  C9 as the specification states it: a minor task that passes validation has
  \<open>lowerEstimate \<ge> 0\<close> and \<open>higherEstimate \<ge> lowerEstimate\<close>.  The schema \<^verbatim>\<open>estimates\<close>
  is four times \<^verbatim>\<open>z.number()\<close>, without a bound: a task with \<open>lowerEstimate = -1\<close> and
  \<open>higherEstimate = -5\<close> passes.
\<close>

theorem C9_counterexample:
  "minorTask c9_task = Inr c9_parsed
   \<and> \<not> js_le (Fin 0) (lowerEstimate c9_parsed)
   \<and> \<not> js_le (lowerEstimate c9_parsed) (higherEstimate c9_parsed)"
  by (simp add: minorTask_c9) (simp add: c9_parsed_def)

text \<open>
  C9, amended: every minor task that passes validation has a \<open>lowerEstimate\<close> and a
  \<open>higherEstimate\<close> that are numbers other than \<open>NaN\<close>, and they are the numbers of the
  raw input; no range is checked.
\<close>

theorem C9_validated_numbers:
  "minorTask v = Inr t \<Longrightarrow>
     \<exists>fs. v = Obj fs
       \<and> property fs ''lowerEstimate'' = Num (lowerEstimate t) \<and> lowerEstimate t \<noteq> NaN
       \<and> property fs ''higherEstimate'' = Num (higherEstimate t) \<and> higherEstimate t \<noteq> NaN"
  unfolding minorTask_def bind_eq_Inr field_eq_Inr
  by (auto dest!: estimates_eq_Inr simp: field_eq_Inr z_number_eq_Inr)

text \<open>The amended C9 at the task with the estimates \<open>-1\<close> and \<open>-5\<close>.\<close>

theorem C9_witness:
  "\<exists>fs. c9_task = Obj fs
     \<and> property fs ''lowerEstimate'' = Num (Fin (- 1))
     \<and> property fs ''higherEstimate'' = Num (Fin (- 5))"
  using C9_validated_numbers [OF minorTask_c9] by (simp add: c9_parsed_def)

subsection \<open>C10: the lower estimate stays below the higher one\<close>

text \<open>
  C10: a node whose children each have \<open>lowerEstimate \<le> higherEstimate\<close> has it too, at
  all three levels.  The children of a node are the nodes that its callback of \<^verbatim>\<open>reduce\<close>
  sums: the minor tasks of a major task, the major tasks of a category, and for the plan
  the categories that \<open>estimateSchema\<close> parsed (\<^verbatim>\<open>input.estimates\<close>).  Moreover, when every
  minor task of the result of \<open>estimateList\<close> has \<open>lowerEstimate \<le> higherEstimate\<close>, then
  so has every major task, every category and the plan of the result.
\<close>

theorem C10_range_kept:
  "(majorTask mv = Inr m \<and> list_all range_ok (major_tasks m) \<longrightarrow> range_ok m)
   \<and> (taskCategory cv = Inr c \<and> list_all range_ok (category_tasks c) \<longrightarrow> range_ok c)
   \<and> (estimateList v = Inr l \<and> estimateSchema v = Inr i
        \<and> list_all range_ok (input_estimates i) \<longrightarrow> range_ok l)
   \<and> (estimateList w = Inr k \<and> list_all range_ok (all_minors k) \<longrightarrow>
        range_ok k
        \<and> list_all (\<lambda>c. range_ok c \<and> list_all range_ok (category_tasks c)) (list_estimates k))"
  using majorTask_range [of mv m] taskCategory_range [of cv c] estimateList_range_first [of v l i]
    estimateList_range_leaves [of w k]
  by blast

text \<open>C10 at a plan with one category, one major task and two minor tasks.\<close>

theorem C10_witness:
  "majorTask c7_major = Inr c7_parsed_major
   \<and> list_all range_ok (major_tasks c7_parsed_major) \<and> range_ok c7_parsed_major
   \<and> taskCategory c7_category = Inr c7_parsed_category
   \<and> list_all range_ok (category_tasks c7_parsed_category) \<and> range_ok c7_parsed_category
   \<and> estimateList c8_plain = Inr c7_parsed_plan
   \<and> estimateSchema c8_plain = Inr \<lparr>input_estimates = [c7_parsed_category]\<rparr>
   \<and> list_all range_ok (all_minors c7_parsed_plan) \<and> range_ok c7_parsed_plan
   \<and> list_all (\<lambda>c. range_ok c \<and> list_all range_ok (category_tasks c))
       (list_estimates c7_parsed_plan)"
proof -
  note C10 = C10_range_kept [of c7_major c7_parsed_major c7_category c7_parsed_category
      c8_plain c7_parsed_plan "\<lparr>input_estimates = [c7_parsed_category]\<rparr>"
      c8_plain c7_parsed_plan]
  have a: "list_all range_ok (major_tasks c7_parsed_major)"
    by (simp add: c7_parsed_major_def c7_tasks_def range_ok_def minor_def)
  with C10 have b: "range_ok c7_parsed_major"
    by (simp add: majorTask_c7_parsed)
  then have c: "list_all range_ok (category_tasks c7_parsed_category)"
    by (simp add: c7_parsed_category_def)
  with C10 have d: "range_ok c7_parsed_category"
    by (simp add: taskCategory_c7)
  have e: "list_all range_ok (all_minors c7_parsed_plan)"
    using a by (simp add: all_minors_def category_minors_def c7_parsed_plan_def
        c7_parsed_category_def)
  from d C10 have f: "range_ok c7_parsed_plan"
    by (simp add: estimateList_c8_plain estimateSchema_c8_plain)
  from e C10 have "list_all (\<lambda>c. range_ok c \<and> list_all range_ok (category_tasks c))
       (list_estimates c7_parsed_plan)"
    by (simp add: estimateList_c8_plain)
  with a b c d e f show ?thesis
    by (simp add: majorTask_c7_parsed taskCategory_c7 estimateList_c8_plain
        estimateSchema_c8_plain)
qed

end
